theory Spec2Isabelle
  imports Complex_Main "HOL-Library.Word"
begin

section \<open>Constants (lib/constants.ts)\<close>

definition AUDIO_SEND_SAMPLE_RATE :: nat where
  "AUDIO_SEND_SAMPLE_RATE = 16000"

definition AUDIO_RECEIVE_SAMPLE_RATE :: nat where
  "AUDIO_RECEIVE_SAMPLE_RATE = 24000"

definition AUDIO_CHUNK_SIZE :: nat where
  "AUDIO_CHUNK_SIZE = 4096"

definition CAMERA_FRAME_INTERVAL_MS :: nat where
  "CAMERA_FRAME_INTERVAL_MS = 1000"

section \<open>JavaScript numbers\<close>

text \<open>
  A JavaScript number is an IEEE 754 binary64 value: a finite one, modelled by the real
  number it denotes, an infinity or NaN (the sign of zero is not modelled). Every
  arithmetic result is rounded to the nearest binary64 value, ties to the even
  significand.
\<close>

datatype js_number = Num real | PosInfinity | NegInfinity | NaN

text \<open>The integer nearest to \<open>y\<close>, the even one of two that are equally near.\<close>

definition rne :: "real \<Rightarrow> int" where
  "rne y =
     (let f = \<lfloor>y\<rfloor> in
      if y - of_int f < 1 / 2 then f
      else if 1 / 2 < y - of_int f then f + 1
      else if even f then f else f + 1)"

text \<open>
  \<open>binade n x\<close> is the exponent \<open>e\<close> with \<open>2^e \<le> x < 2^(e+1)\<close>, found in at most \<open>n\<close>
  halvings or doublings. Around a positive \<open>x\<close> the binary64 values are the multiples of
  \<open>2^(quantum x)\<close>: of \<open>2^(-1074)\<close> below \<open>2^(-1022)\<close>, of \<open>2^(e-52)\<close> in the binade of
  exponent \<open>e\<close>. \<open>binary64 x\<close> rounds \<open>x\<close> to such a multiple; a result of magnitude
  \<open>2^1024\<close> or more is an infinity. \<open>is_binary64 v\<close> says that \<open>v\<close> is itself a binary64
  value.
\<close>

fun binade :: "nat \<Rightarrow> real \<Rightarrow> int" where
  "binade 0 x = 0"
| "binade (Suc n) x =
     (if 2 \<le> x then binade n (x / 2) + 1
      else if x < 1 then binade n (2 * x) - 1
      else 0)"

definition quantum :: "real \<Rightarrow> int" where
  "quantum x = (if x < 2 powi (- 1022) then - 1074 else binade 1024 x - 52)"

definition scaled :: "int \<Rightarrow> real \<Rightarrow> real" where
  "scaled q x = of_int (rne (x / 2 powi q)) * 2 powi q"

definition binary64_pos :: "real \<Rightarrow> js_number" where
  "binary64_pos x =
     (if 2 ^ 1024 \<le> x then PosInfinity
      else
        let v = of_int (rne (x / 2 powi quantum x)) * 2 powi quantum x
        in if 2 ^ 1024 \<le> v then PosInfinity else Num v)"

definition binary64 :: "real \<Rightarrow> js_number" where
  "binary64 x =
     (if x < 0 then
        (case binary64_pos (- x) of
           Num v \<Rightarrow> Num (- v)
         | PosInfinity \<Rightarrow> NegInfinity
         | r \<Rightarrow> r)
      else binary64_pos x)"

definition is_binary64 :: "real \<Rightarrow> bool" where
  "is_binary64 v = (binary64 v = Num v)"

text \<open>The operators \<open>+\<close> and \<open><=\<close>, and \<open>Math.min\<close> and \<open>Math.max\<close>.\<close>

fun js_plus :: "js_number \<Rightarrow> js_number \<Rightarrow> js_number" where
  "js_plus (Num a) (Num b) = binary64 (a + b)"
| "js_plus NaN y = NaN"
| "js_plus x NaN = NaN"
| "js_plus PosInfinity NegInfinity = NaN"
| "js_plus NegInfinity PosInfinity = NaN"
| "js_plus PosInfinity y = PosInfinity"
| "js_plus x PosInfinity = PosInfinity"
| "js_plus NegInfinity y = NegInfinity"
| "js_plus x NegInfinity = NegInfinity"

definition js_le :: "js_number \<Rightarrow> js_number \<Rightarrow> bool" where
  "js_le a b =
     (case (a, b) of
        (NaN, _) \<Rightarrow> False
      | (_, NaN) \<Rightarrow> False
      | (NegInfinity, _) \<Rightarrow> True
      | (_, PosInfinity) \<Rightarrow> True
      | (Num x, Num y) \<Rightarrow> x \<le> y
      | _ \<Rightarrow> False)"

fun Math_min :: "js_number \<Rightarrow> js_number \<Rightarrow> js_number" where
  "Math_min NaN y = NaN"
| "Math_min x NaN = NaN"
| "Math_min NegInfinity y = NegInfinity"
| "Math_min x NegInfinity = NegInfinity"
| "Math_min PosInfinity y = y"
| "Math_min x PosInfinity = x"
| "Math_min (Num a) (Num b) = Num (min a b)"

fun Math_max :: "js_number \<Rightarrow> js_number \<Rightarrow> js_number" where
  "Math_max NaN y = NaN"
| "Math_max x NaN = NaN"
| "Math_max PosInfinity y = PosInfinity"
| "Math_max x PosInfinity = PosInfinity"
| "Math_max NegInfinity y = y"
| "Math_max x NegInfinity = x"
| "Math_max (Num a) (Num b) = Num (max a b)"

section \<open>Playback Scheduler (hooks/useAudioPlayback.ts)\<close>

text \<open>
  Times on the audio clock are JavaScript numbers. The clock reading \<open>ctx.currentTime\<close>
  is supplied by the environment at every call; it is a finite number.

  The audio contexts the hook has created are kept in a store, in order of creation, and
  \<open>ctxRef\<close> holds the index of one of them or null: \<open>flush\<close> closes a context and drops
  the reference, while the context and what was scheduled on it stay in the store. A
  scheduled source is the samples of its buffer and the time handed to \<open>source.start\<close>.

  An \<open>ArrayBuffer\<close> is a list of bytes. \<open>new Int16Array(pcmData)\<close> raises a RangeError
  when the byte length is odd and otherwise reads little-endian pairs;
  \<open>ctx.createBuffer(1, 0, rate)\<close> raises a NotSupportedError; \<open>source.start(when)\<close>
  raises a RangeError on a negative time and a TypeError on one that is not finite. All
  are branches of \<open>playChunk\<close>. The division \<open>int16[i] / 32768\<close> is exact in single
  precision.
\<close>

datatype context_state = Suspended | Running | Closed

record scheduled_source =
  source_samples :: "real list"
  source_start :: real

record audio_context =
  ctx_state :: context_state
  ctx_sampleRate :: nat
  ctx_sources :: "scheduled_source list"

record playback =
  contexts :: "audio_context list"
  ctxRef :: "nat option"
  nextTimeRef :: js_number
  isPlayingRef :: bool

datatype playback_error = RangeError | NotSupportedError | TypeError

definition playback_init :: playback where
  "playback_init = \<lparr>contexts = [], ctxRef = None, nextTimeRef = Num 0, isPlayingRef = False\<rparr>"

text \<open>
  \<open>new AudioContext({sampleRate})\<close>: a fresh context with nothing scheduled. Its
  \<open>state\<close> attribute reads "suspended" until the device has started; \<open>resume()\<close> and
  \<open>close()\<close> are modelled by their eventual effect on that attribute.
\<close>

definition new_AudioContext :: "nat \<Rightarrow> audio_context" where
  "new_AudioContext rate = \<lparr>ctx_state = Suspended, ctx_sampleRate = rate, ctx_sources = []\<rparr>"

definition resume :: "audio_context \<Rightarrow> audio_context" where
  "resume c = (if ctx_state c = Suspended then c\<lparr>ctx_state := Running\<rparr> else c)"

definition close :: "audio_context \<Rightarrow> audio_context" where
  "close c = c\<lparr>ctx_state := Closed\<rparr>"

definition update_context :: "nat \<Rightarrow> (audio_context \<Rightarrow> audio_context) \<Rightarrow> playback \<Rightarrow> playback" where
  "update_context i f s =
     (if i < length (contexts s) then s\<lparr>contexts := (contexts s)[i := f (contexts s ! i)]\<rparr> else s)"

definition create_context :: "playback \<Rightarrow> nat \<times> playback" where
  "create_context s =
     (length (contexts s),
      s\<lparr>contexts := contexts s @ [new_AudioContext AUDIO_RECEIVE_SAMPLE_RATE],
        ctxRef := Some (length (contexts s))\<rparr>)"

definition getContext :: "playback \<Rightarrow> nat \<times> playback" where
  "getContext s =
     (let (i, s1) =
        (case ctxRef s of
           None \<Rightarrow> create_context s
         | Some j \<Rightarrow>
             if j < length (contexts s) \<and> ctx_state (contexts s ! j) \<noteq> Closed then (j, s)
             else create_context s)
      in if ctx_state (contexts s1 ! i) = Suspended then (i, update_context i resume s1)
         else (i, s1))"

fun int16_view :: "8 word list \<Rightarrow> 16 word list" where
  "int16_view (lo # hi # rest) = word_cat hi lo # int16_view rest"
| "int16_view _ = []"

definition to_float32 :: "16 word list \<Rightarrow> real list" where
  "to_float32 int16 = map (\<lambda>w. real_of_int (sint w) / 32768) int16"

text \<open>
  \<open>buffer.duration\<close> is the number nearest to length / sampleRate, and
  \<open>startTime + buffer.duration\<close> is rounded once more. \<open>playChunk\<close> returns the new state
  and either the exception it raised or the source it scheduled.
\<close>

definition buffer_duration :: "nat \<Rightarrow> js_number" where
  "buffer_duration n = binary64 (real n / real AUDIO_RECEIVE_SAMPLE_RATE)"

definition playChunk ::
  "real \<Rightarrow> 8 word list \<Rightarrow> playback \<Rightarrow> playback \<times> (playback_error + scheduled_source)" where
  "playChunk now pcmData s =
     (let (i, s1) = getContext s in
      if odd (length pcmData) then (s1, Inl RangeError)
      else
        let float32 = to_float32 (int16_view pcmData) in
        if length float32 = 0 then (s1, Inl NotSupportedError)
        else
          (case Math_max (Num now) (nextTimeRef s1) of
             Num startTime \<Rightarrow>
               if startTime < 0 then (s1, Inl RangeError)
               else
                 let source = \<lparr>source_samples = float32, source_start = startTime\<rparr>
                 in ((update_context i (\<lambda>c. c\<lparr>ctx_sources := ctx_sources c @ [source]\<rparr>) s1)
                       \<lparr>nextTimeRef := js_plus (Num startTime) (buffer_duration (length float32)),
                        isPlayingRef := True\<rparr>,
                     Inr source)
           | _ \<Rightarrow> (s1, Inl TypeError)))"

text \<open>The \<open>onended\<close> callback of a source, with the clock reading at that moment.\<close>

definition onended :: "real \<Rightarrow> playback \<Rightarrow> playback" where
  "onended now s =
     (if js_le (nextTimeRef s) (js_plus (Num now) (binary64 (5 / 100)))
      then s\<lparr>isPlayingRef := False\<rparr> else s)"

text \<open>\<open>flush\<close>: the context that \<open>ctxRef\<close> names is closed, then the reference dropped.\<close>

definition flush :: "playback \<Rightarrow> playback" where
  "flush s =
     (let s1 = (case ctxRef s of
                  None \<Rightarrow> s
                | Some i \<Rightarrow> (update_context i close s)\<lparr>ctxRef := None\<rparr>)
      in s1\<lparr>nextTimeRef := Num 0, isPlayingRef := False\<rparr>)"

text \<open>
  A run of the scheduler with no flush: the inbound chunks, each with the clock reading
  at its call, interleaved with \<open>onended\<close> callbacks. An exception of one \<open>playChunk\<close>
  ends that call only; the next inbound message is handled as usual. The run returns the
  final state and the sources it scheduled, in order.
\<close>

datatype playback_call = PlayChunk real "8 word list" | SourceEnded real

fun run_playback :: "playback_call list \<Rightarrow> playback \<Rightarrow> playback \<times> scheduled_source list" where
  "run_playback [] s = (s, [])"
| "run_playback (SourceEnded now # cs) s = run_playback cs (onended now s)"
| "run_playback (PlayChunk now pcmData # cs) s =
     (let (s1, r) = playChunk now pcmData s;
          (s2, us) = run_playback cs s1
      in (s2, (case r of Inl e \<Rightarrow> us | Inr u \<Rightarrow> u # us)))"

text \<open>
  A source of \<open>n\<close> samples plays for exactly \<open>n / 24000\<close> seconds from its start.
  \<open>no_overlap\<close> says that every source starts no earlier than the one before ends;
  \<open>chained\<close> allows it to start earlier by at most a \<open>2^(-51)\<close>-th of that end.
\<close>

definition source_duration :: "scheduled_source \<Rightarrow> real" where
  "source_duration u = real (length (source_samples u)) / real AUDIO_RECEIVE_SAMPLE_RATE"

definition source_end :: "scheduled_source \<Rightarrow> real" where
  "source_end u = source_start u + source_duration u"

definition scheduled_span :: "scheduled_source list \<Rightarrow> real" where
  "scheduled_span us = (case us of [] \<Rightarrow> 0 | u # vs \<Rightarrow> source_end (last us) - source_start u)"

fun no_overlap :: "scheduled_source list \<Rightarrow> bool" where
  "no_overlap (u # v # us) = (source_end u \<le> source_start v \<and> no_overlap (v # us))"
| "no_overlap _ = True"

fun chained :: "scheduled_source list \<Rightarrow> bool" where
  "chained (u # v # us) =
     (source_end u - source_end u / 2 ^ 51 \<le> source_start v \<and> chained (v # us))"
| "chained _ = True"

text \<open>
  What the cursor and the clock can hold: a clock reading is a binary64 value that is not
  negative; the cursor is one too, or \<open>Infinity\<close> once a sum has overflowed.
\<close>

definition clock_reading :: "real \<Rightarrow> bool" where
  "clock_reading now = (0 \<le> now \<and> is_binary64 now)"

definition cursor_value :: "js_number \<Rightarrow> bool" where
  "cursor_value c =
     (case c of Num v \<Rightarrow> 0 \<le> v \<and> is_binary64 v | PosInfinity \<Rightarrow> True | _ \<Rightarrow> False)"

fun call_clock :: "playback_call \<Rightarrow> bool" where
  "call_clock (PlayChunk now pcmData) = clock_reading now"
| "call_clock (SourceEnded now) = clock_reading now"

section \<open>Capture Pipeline (hooks/useAudioCapture.ts)\<close>

text \<open>
  A sample handed to \<open>onaudioprocess\<close> is a single-precision number: a finite value
  (modelled by the real number it denotes), an infinity or NaN. The products
  \<open>s * 0x8000\<close> and \<open>s * 0x7fff\<close> are computed in double precision, where a 24-bit
  significand times a 15-bit constant is exact. Storing a number into an \<open>Int16Array\<close>
  applies ToInt16: NaN and the infinities become 0, any other value is truncated towards
  zero and reduced modulo \<open>2^16\<close>.
\<close>

text \<open>\<open>s < 0\<close>, and \<open>s * k\<close> for a positive finite constant \<open>k\<close>.\<close>

fun js_negative :: "js_number \<Rightarrow> bool" where
  "js_negative (Num a) = (a < 0)"
| "js_negative NegInfinity = True"
| "js_negative _ = False"

fun js_scale :: "js_number \<Rightarrow> real \<Rightarrow> js_number" where
  "js_scale (Num a) k = Num (a * k)"
| "js_scale x k = x"

definition js_trunc :: "real \<Rightarrow> int" where
  "js_trunc r = (if r < 0 then \<lceil>r\<rceil> else \<lfloor>r\<rfloor>)"

fun ToInt16 :: "js_number \<Rightarrow> 16 word" where
  "ToInt16 (Num a) = word_of_int (js_trunc a)"
| "ToInt16 _ = 0"

definition convert_sample :: "js_number \<Rightarrow> 16 word" where
  "convert_sample x =
     (let s = Math_max (Num (- 1)) (Math_min (Num 1) x)
      in ToInt16 (if js_negative s then js_scale s 32768 else js_scale s 32767))"

text \<open>\<open>int16.buffer\<close>: the bytes behind an \<open>Int16Array\<close>, little-endian.\<close>

fun int16_buffer :: "16 word list \<Rightarrow> 8 word list" where
  "int16_buffer [] = []"
| "int16_buffer (w # ws) = ucast w # ucast (drop_bit 8 w) # int16_buffer ws"

text \<open>The callback of the script processor: the list of its calls of \<open>onChunk\<close>.\<close>

definition onaudioprocess :: "js_number list \<Rightarrow> 8 word list list" where
  "onaudioprocess float32 = [int16_buffer (map convert_sample float32)]"

text \<open>
  The conversion as the specification words it:
  \<open>round(clamp(x, -1, 1) * (x < 0 ? 32768 : 32767))\<close>, on a finite sample.
\<close>

definition spec_pcm16 :: "real \<Rightarrow> int" where
  "spec_pcm16 x = round (max (- 1) (min 1 x) * (if x < 0 then 32768 else 32767))"

text \<open>
  The hook's state: the three references and the \<open>isCapturing\<close> flag. A media stream is
  the list of its tracks, each an audio or a video track; \<open>getUserMedia\<close> answers with a
  stream or rejects.
\<close>

datatype track_kind = AudioTrack | VideoTrack

datatype track_state = Live | Ended

record media_track =
  track_kind :: track_kind
  track_state :: track_state

record media_stream =
  tracks :: "media_track list"

definition getVideoTracks :: "media_stream \<Rightarrow> media_track list" where
  "getVideoTracks stream = filter (\<lambda>t. track_kind t = VideoTrack) (tracks stream)"

record script_processor =
  bufferSize :: nat
  connected :: bool

record capture =
  isCapturing :: bool
  audioContextRef :: "audio_context option"
  mic_streamRef :: "media_stream option"
  processorRef :: "script_processor option"

datatype acquisition_error = AcquisitionError

definition capture_init :: capture where
  "capture_init = \<lparr>isCapturing = False, audioContextRef = None, mic_streamRef = None,
     processorRef = None\<rparr>"

definition capture_start :: "media_stream option \<Rightarrow> capture \<Rightarrow> acquisition_error + capture" where
  "capture_start getUserMedia s =
     (case getUserMedia of
        None \<Rightarrow> Inl AcquisitionError
      | Some stream \<Rightarrow>
          Inr (s\<lparr>audioContextRef := Some (new_AudioContext AUDIO_SEND_SAMPLE_RATE),
                 mic_streamRef := Some stream,
                 processorRef := Some \<lparr>bufferSize = AUDIO_CHUNK_SIZE, connected = True\<rparr>,
                 isCapturing := True\<rparr>))"

text \<open>
  \<open>stop\<close>: every call goes through \<open>?.\<close>, so it is skipped on a null reference; the
  objects it disconnects, closes and stops are then dropped with the references.
\<close>

definition capture_stop :: "capture \<Rightarrow> capture" where
  "capture_stop s =
     s\<lparr>processorRef := None, audioContextRef := None, mic_streamRef := None,
       isCapturing := False\<rparr>"

section \<open>Frame Pacer (hooks/useCameraCapture.ts)\<close>

text \<open>
  The video element is mounted by the surrounding component; its \<open>readyState\<close>, whether
  the canvas hands out a 2d context and the data URL it encodes are read from the
  environment at every tick. \<open>dataUrl.split(",")[1]\<close> is \<open>undefined\<close> when the URL has
  no comma; the log line then reads \<open>base64.length\<close> and raises a TypeError.

  The interval timers the hook has installed are kept in a store, in order of creation;
  the handle of a timer is its position counted from 1, so a handle is never 0, and
  \<open>intervalRef\<close> holds the handle of the timer installed last, or null. A timer has its
  period, the time in milliseconds from which it may fire next, and whether it is still
  installed.
\<close>

record video_element =
  srcObject :: "media_stream option"

record interval_timer =
  timer_period :: nat
  timer_due :: nat
  timer_live :: bool

record camera =
  videoRef :: "video_element option"
  cam_streamRef :: "media_stream option"
  intervalRef :: "nat option"
  intervals :: "interval_timer list"
  canvasRef :: "(nat \<times> nat) option"
  isActive :: bool
  frameCountRef :: nat

definition camera_init :: camera where
  "camera_init = \<lparr>videoRef = None, cam_streamRef = None, intervalRef = None, intervals = [],
     canvasRef = None, isActive = False, frameCountRef = 0\<rparr>"

definition split_comma_1 :: "string \<Rightarrow> string option" where
  "split_comma_1 dataUrl =
     (case dropWhile (\<lambda>c. c \<noteq> CHR '','') dataUrl of
        [] \<Rightarrow> None
      | c # rest \<Rightarrow> Some (takeWhile (\<lambda>c. c \<noteq> CHR '','') rest))"

text \<open>
  \<open>setInterval(callback, period)\<close> at time \<open>t\<close> and \<open>clearInterval(handle)\<close>. A new timer
  first fires a period after its installation at the earliest.
\<close>

definition setInterval :: "nat \<Rightarrow> nat \<Rightarrow> camera \<Rightarrow> nat \<times> camera" where
  "setInterval period t s =
     (length (intervals s) + 1,
      s\<lparr>intervals := intervals s @
            [\<lparr>timer_period = period, timer_due = t + period, timer_live = True\<rparr>]\<rparr>)"

definition clearInterval :: "nat \<Rightarrow> camera \<Rightarrow> camera" where
  "clearInterval h s =
     (if 1 \<le> h \<and> h \<le> length (intervals s)
      then s\<lparr>intervals := (intervals s)[h - 1 := (intervals s ! (h - 1))\<lparr>timer_live := False\<rparr>]\<rparr>
      else s)"

text \<open>
  \<open>start\<close> at time \<open>t\<close>: the answer of \<open>getUserMedia\<close> and whether \<open>video.play()\<close>
  resolves. It returns the new state and the error it rethrows.
  \<open>stream.getVideoTracks()[0].label\<close> raises a TypeError on a stream without a video
  track. The timer is installed whether or not an earlier one is still running: \<open>start\<close>
  clears nothing.
\<close>

datatype camera_error = GetUserMediaRejected | NoVideoTrack | PlayRejected

definition install_interval :: "media_stream \<Rightarrow> nat \<Rightarrow> camera \<Rightarrow> camera" where
  "install_interval stream t s =
     (let s1 = s\<lparr>cam_streamRef := Some stream, canvasRef := Some (640, 480), frameCountRef := 0\<rparr>;
          (h, s2) = setInterval CAMERA_FRAME_INTERVAL_MS t s1
      in s2\<lparr>intervalRef := Some h, isActive := True\<rparr>)"

definition camera_start ::
  "media_stream option \<Rightarrow> bool \<Rightarrow> nat \<Rightarrow> camera \<Rightarrow> camera \<times> camera_error option" where
  "camera_start getUserMedia play_ok t s =
     (case getUserMedia of
        None \<Rightarrow> (s, Some GetUserMediaRejected)
      | Some stream \<Rightarrow>
          if getVideoTracks stream = [] then (s, Some NoVideoTrack)
          else
            (case videoRef s of
               Some v \<Rightarrow>
                 if \<not> play_ok
                 then (s\<lparr>videoRef := Some (v\<lparr>srcObject := Some stream\<rparr>)\<rparr>, Some PlayRejected)
                 else (install_interval stream t
                         (s\<lparr>videoRef := Some (v\<lparr>srcObject := Some stream\<rparr>)\<rparr>), None)
             | None \<Rightarrow> (install_interval stream t s, None)))"







text \<open>
  \<open>stop\<close>: the timer that \<open>intervalRef\<close> names is cleared; the tracks it stops are dropped
  with the stream reference.
\<close>

definition camera_stop :: "camera \<Rightarrow> camera" where
  "camera_stop s =
     (let s1 = (case intervalRef s of None \<Rightarrow> s | Some h \<Rightarrow> if h = 0 then s else clearInterval h s);
          s2 = (case videoRef s1 of
                  None \<Rightarrow> s1
                | Some v \<Rightarrow> s1\<lparr>videoRef := Some (v\<lparr>srcObject := None\<rparr>)\<rparr>)
      in s2\<lparr>intervalRef := None, cam_streamRef := None, isActive := False\<rparr>)"

text \<open>
  The timers still installed, and the window of one interval length that starts at
  \<open>t0\<close>: a list of events lies in the window when each of them happens at a time from
  \<open>t0\<close> up to, but not including, \<open>t0 + CAMERA_FRAME_INTERVAL_MS\<close>. \<open>none_displayable\<close>
  says that at every event the video element reports a \<open>readyState\<close> below 2
  (HAVE_CURRENT_DATA). \<open>due_before t1\<close> counts the installed timers that may still fire
  before \<open>t1\<close>.
\<close>

definition live_intervals :: "camera \<Rightarrow> nat" where
  "live_intervals s = length (filter timer_live (intervals s))"





text \<open>
  A camera stream with one video track, the hook with its video element mounted, and the
  state after one \<open>start\<close> at time 0.
\<close>

definition camera_stream :: media_stream where
  "camera_stream = \<lparr>tracks = [\<lparr>track_kind = VideoTrack, track_state = Live\<rparr>]\<rparr>"


definition camera_started :: camera where
  "camera_started =
     \<lparr>videoRef = Some \<lparr>srcObject = Some camera_stream\<rparr>, cam_streamRef = Some camera_stream,
       intervalRef = Some 1,
       intervals = [\<lparr>timer_period = 1000, timer_due = 1000, timer_live = True\<rparr>],
       canvasRef = Some (640, 480), isActive = True, frameCountRef = 0\<rparr>"

section \<open>Connection Manager (hooks/useWebSocket.ts)\<close>

text \<open>
  Every socket the hook has created stays in a store, found by its index: the handlers
  of a socket close over the socket itself, while \<open>wsRef\<close> names the latest one only.
  What a socket has handed to the transport is kept in \<open>ws_sent\<close>; the JSON text of a
  control message is kept as the object it encodes (with \<open>None\<close> for a field that is
  \<open>undefined\<close>, which \<open>JSON.stringify\<close> leaves out).
\<close>

datatype ws_status = Disconnected | Connecting | Connected | Error

datatype ready_state = CONNECTING | OPEN | CLOSING | CLOSED

datatype outbound =
    Binary "8 word list"
  | Config string
  | Image "string option"
  | Text string

record web_socket =
  ws_url :: string
  ws_readyState :: ready_state
  ws_sent :: "outbound list"

record connection =
  sockets :: "web_socket list"
  wsRef :: "nat option"
  status :: ws_status

definition connection_init :: connection where
  "connection_init = \<lparr>sockets = [], wsRef = None, status = Disconnected\<rparr>"

definition BACKEND_WS_URL :: string where
  "BACKEND_WS_URL = ''ws://localhost:8080''"

text \<open>\<open>wsRef.current?.readyState === WebSocket.OPEN\<close>\<close>

definition socket_open :: "connection \<Rightarrow> bool" where
  "socket_open s =
     (case wsRef s of
        None \<Rightarrow> False
      | Some i \<Rightarrow> i < length (sockets s) \<and> ws_readyState (sockets s ! i) = OPEN)"

definition ws_send :: "nat \<Rightarrow> outbound \<Rightarrow> connection \<Rightarrow> connection" where
  "ws_send i data s =
     (if i < length (sockets s)
      then s\<lparr>sockets := (sockets s)[i := (sockets s ! i)\<lparr>ws_sent := ws_sent (sockets s ! i) @ [data]\<rparr>]\<rparr>
      else s)"

text \<open>\<open>close()\<close> starts the closing handshake of a socket that is not yet closing.\<close>

definition ws_close :: "nat \<Rightarrow> connection \<Rightarrow> connection" where
  "ws_close i s =
     (if i < length (sockets s) \<and> ws_readyState (sockets s ! i) \<in> {CONNECTING, OPEN}
      then s\<lparr>sockets := (sockets s)[i := (sockets s ! i)\<lparr>ws_readyState := CLOSING\<rparr>]\<rparr>
      else s)"

definition connect :: "string \<Rightarrow> string \<Rightarrow> connection \<Rightarrow> connection" where
  "connect sessionId preset s =
     (if socket_open s then s
      else
        let ws = \<lparr>ws_url = BACKEND_WS_URL @ ''/ws/session/'' @ sessionId,
                   ws_readyState = CONNECTING, ws_sent = []\<rparr>
        in s\<lparr>status := Connecting, sockets := sockets s @ [ws],
               wsRef := Some (length (sockets s))\<rparr>)"

text \<open>
  The handlers of socket \<open>i\<close> as far as they touch the hook's own state; the callbacks
  into the component (\<open>onAudioChunk\<close>, \<open>onMessage\<close>, \<open>onDisconnect\<close>) follow with the
  Session Controller. The \<open>preset\<close> is the one \<open>connect\<close> was called with.
\<close>

definition ws_onopen :: "nat \<Rightarrow> string \<Rightarrow> connection \<Rightarrow> connection" where
  "ws_onopen i preset s =
     (if i < length (sockets s)
      then ws_send i (Config preset)
             (s\<lparr>sockets := (sockets s)[i := (sockets s ! i)\<lparr>ws_readyState := OPEN\<rparr>],
                status := Connected\<rparr>)
      else s)"

definition ws_onerror :: "nat \<Rightarrow> connection \<Rightarrow> connection" where
  "ws_onerror i s = s\<lparr>status := Error\<rparr>"

definition ws_onclose :: "nat \<Rightarrow> connection \<Rightarrow> connection" where
  "ws_onclose i s =
     (if i < length (sockets s)
      then s\<lparr>sockets := (sockets s)[i := (sockets s ! i)\<lparr>ws_readyState := CLOSED\<rparr>],
             status := Disconnected\<rparr>
      else s)"

definition disconnect :: "connection \<Rightarrow> connection" where
  "disconnect s =
     (let s1 = (case wsRef s of None \<Rightarrow> s | Some i \<Rightarrow> ws_close i s)
      in s1\<lparr>wsRef := None, status := Disconnected\<rparr>)"

definition sendAudio :: "8 word list \<Rightarrow> connection \<Rightarrow> connection" where
  "sendAudio buffer s =
     (case wsRef s of
        None \<Rightarrow> s
      | Some i \<Rightarrow> if socket_open s then ws_send i (Binary buffer) s else s)"

definition sendImage :: "string option \<Rightarrow> connection \<Rightarrow> connection" where
  "sendImage base64Jpeg s =
     (case wsRef s of
        None \<Rightarrow> s
      | Some i \<Rightarrow> if socket_open s then ws_send i (Image base64Jpeg) s else s)"

definition sendText :: "string \<Rightarrow> connection \<Rightarrow> connection" where
  "sendText text s =
     (case wsRef s of
        None \<Rightarrow> s
      | Some i \<Rightarrow> if socket_open s then ws_send i (Text text) s else s)"

section \<open>Session Controller (the AgentPanel component)\<close>

text \<open>
  A control message as \<open>JSON.parse\<close> delivers it: the tag and the optional fields. A
  string is the list of its code units (those below 256). A transcript entry is its role
  and text; the \<open>id\<close> and \<open>timestamp\<close> that \<open>addEntry\<close> draws from the wall clock and the
  random generator are left out.
\<close>

record ws_message =
  msg_type :: string
  msg_text :: "string option"
  msg_session_id :: "string option"
  msg_agent :: "string option"
  msg_message :: "string option"

datatype role = User | Assistant | System

record transcript_entry =
  entry_role :: role
  entry_text :: string

datatype session_state = Idle | Active

record panel =
  sessionState :: session_state
  agentName :: string
  transcript :: "transcript_entry list"
  sessionIdRef :: string
  assistantBufferRef :: string
  audio :: playback
  conn :: connection
  mic :: capture
  cam :: camera

text \<open>A control message with a tag and a text only.\<close>

definition control :: "string \<Rightarrow> string option \<Rightarrow> ws_message" where
  "control ty tx = \<lparr>msg_type = ty, msg_text = tx, msg_session_id = None, msg_agent = None,
     msg_message = None\<rparr>"

definition panel_init :: panel where
  "panel_init = \<lparr>sessionState = Idle, agentName = ''general'', transcript = [],
     sessionIdRef = [], assistantBufferRef = [], audio = playback_init,
     conn = connection_init, mic = capture_init, cam = camera_init\<rparr>"

definition addEntry :: "role \<Rightarrow> string \<Rightarrow> panel \<Rightarrow> panel" where
  "addEntry r t s = s\<lparr>transcript := transcript s @ [\<lparr>entry_role = r, entry_text = t\<rparr>]\<rparr>"

text \<open>\<open>x || d\<close> on an optional string: \<open>undefined\<close> and the empty string are falsy.\<close>

definition or_default :: "string option \<Rightarrow> string \<Rightarrow> string" where
  "or_default x d = (case x of None \<Rightarrow> d | Some t \<Rightarrow> if t = [] then d else t)"

text \<open>An optional string inside a template literal.\<close>

definition template :: "string option \<Rightarrow> string" where
  "template x = (case x of None \<Rightarrow> ''undefined'' | Some t \<Rightarrow> t)"

definition js_whitespace :: "char \<Rightarrow> bool" where
  "js_whitespace c = (of_char c \<in> {9, 10, 11, 12, 13, 32, 160 :: nat})"

definition trim :: "string \<Rightarrow> string" where
  "trim t = rev (dropWhile js_whitespace (rev (dropWhile js_whitespace t)))"

definition flushAudio :: "panel \<Rightarrow> panel" where
  "flushAudio s = s\<lparr>audio := flush (audio s)\<rparr>"

definition handleMessage :: "ws_message \<Rightarrow> panel \<Rightarrow> panel" where
  "handleMessage msg s =
     (if msg_type msg = ''session_ready'' then
        addEntry System (''Connected to '' @ or_default (msg_agent msg) ''general'' @ '' agent.'')
          (s\<lparr>agentName := or_default (msg_agent msg) ''general''\<rparr>)
      else if msg_type msg = ''transcript'' then
        s\<lparr>assistantBufferRef := assistantBufferRef s @ or_default (msg_text msg) []\<rparr>
      else if msg_type msg = ''input_transcript'' then
        (case msg_text msg of
           None \<Rightarrow> s
         | Some t \<Rightarrow> if t \<noteq> [] \<and> trim t \<noteq> [] then addEntry User t s else s)
      else if msg_type msg = ''turn_complete'' then
        (if assistantBufferRef s \<noteq> []
         then (addEntry Assistant (assistantBufferRef s) s)\<lparr>assistantBufferRef := []\<rparr>
         else s)
      else if msg_type msg = ''interrupted'' then
        (let s1 = flushAudio s in
         if assistantBufferRef s1 \<noteq> []
         then (addEntry Assistant (assistantBufferRef s1 @ '' [interrupted]'') s1)
                \<lparr>assistantBufferRef := []\<rparr>
         else s1)
      else if msg_type msg = ''error'' then
        addEntry System (''Error: '' @ template (msg_message msg)) s
      else s)"

definition handleAudioChunk :: "real \<Rightarrow> 8 word list \<Rightarrow> panel \<Rightarrow> panel" where
  "handleAudioChunk now data s = s\<lparr>audio := fst (playChunk now data (audio s))\<rparr>"

definition handleDisconnect :: "panel \<Rightarrow> panel" where
  "handleDisconnect s = addEntry System ''Session ended.'' (s\<lparr>sessionState := Idle\<rparr>)"

definition handleStart :: "string \<Rightarrow> string \<Rightarrow> panel \<Rightarrow> panel" where
  "handleStart sessionId presetId s =
     (let s1 = s\<lparr>sessionIdRef := sessionId, sessionState := Active, transcript := [],
                  agentName := presetId\<rparr>
      in s1\<lparr>conn := connect sessionId presetId (conn s1)\<rparr>)"

definition stopMic :: "panel \<Rightarrow> panel" where
  "stopMic s = s\<lparr>mic := capture_stop (mic s)\<rparr>"

definition stopCamera :: "panel \<Rightarrow> panel" where
  "stopCamera s = s\<lparr>cam := camera_stop (cam s)\<rparr>"

definition handleEndSession :: "panel \<Rightarrow> panel" where
  "handleEndSession s =
     (let s1 = stopMic s;
          s2 = stopCamera s1;
          s3 = s2\<lparr>conn := disconnect (conn s2)\<rparr>
      in s3\<lparr>sessionState := Idle\<rparr>)"

definition handleSendText :: "string \<Rightarrow> panel \<Rightarrow> panel" where
  "handleSendText text s = addEntry User text (s\<lparr>conn := sendText text (conn s)\<rparr>)"

text \<open>
  The close event of socket \<open>i\<close>, as the component sees it: the hook's own handler, then
  \<open>onDisconnect\<close>. A socket fires it once, when it reaches \<open>CLOSED\<close>; the sockets that
  can still fire it are the ones that have been created and are not closed yet.
\<close>

definition socket_closed :: "nat \<Rightarrow> panel \<Rightarrow> panel" where
  "socket_closed i s = handleDisconnect (s\<lparr>conn := ws_onclose i (conn s)\<rparr>)"

definition pending_close :: "panel \<Rightarrow> nat list" where
  "pending_close s =
     filter (\<lambda>i. ws_readyState (sockets (conn s) ! i) \<noteq> CLOSED) [0 ..< length (sockets (conn s))]"

section \<open>Properties of binary64 rounding\<close>

lemma rne_of_int [simp]: "rne (of_int k) = k"
  by (simp add: rne_def)

lemma rne_lower: "y - 1 / 2 \<le> of_int (rne y)"
  unfolding rne_def Let_def by (auto; linarith)

lemma rne_upper: "of_int (rne y) \<le> y + 1 / 2"
  unfolding rne_def Let_def by (auto; linarith)

lemma rne_floor_le: "\<lfloor>y\<rfloor> \<le> rne y"
  by (simp add: rne_def Let_def)

lemma rne_le_floor_Suc: "rne y \<le> \<lfloor>y\<rfloor> + 1"
  by (simp add: rne_def Let_def)

lemma rne_mono: "x \<le> y \<Longrightarrow> rne x \<le> rne y"
proof -
  assume xy: "x \<le> y"
  have fl: "\<lfloor>x\<rfloor> \<le> \<lfloor>y\<rfloor>" using xy by (rule floor_mono)
  show ?thesis
  proof (cases "\<lfloor>x\<rfloor> = \<lfloor>y\<rfloor>")
    case True
    then show ?thesis using xy by (auto simp: rne_def Let_def)
  next
    case False
    with fl have "\<lfloor>x\<rfloor> + 1 \<le> \<lfloor>y\<rfloor>" by simp
    with rne_le_floor_Suc [of x] rne_floor_le [of y] show ?thesis by linarith
  qed
qed

lemma binade_spec:
  "0 < x \<Longrightarrow> 2 powi (- int n) \<le> x \<Longrightarrow> x < 2 powi (int n + 1) \<Longrightarrow>
     2 powi (binade n x) \<le> x \<and> x < 2 powi (binade n x + 1)"
proof (induction n arbitrary: x)
  case 0
  then show ?case by simp
next
  case (Suc n)
  show ?case
  proof (cases "2 \<le> x")
    case True
    have a: "0 < x / 2" using Suc.prems by simp
    have "2 powi (- int n) \<le> (1 :: real)"
      by (simp add: power_int_minus_divide)
    then have b: "2 powi (- int n) \<le> x / 2" using True by linarith
    have "x < 2 powi (int n + 1) * 2"
      using Suc.prems(3) by (simp add: power_int_add ac_simps)
    then have c: "x / 2 < 2 powi (int n + 1)" by simp
    from Suc.IH [OF a b c] True show ?thesis
      by (simp add: power_int_add)
  next
    case False
    show ?thesis
    proof (cases "x < 1")
      case True
      have a: "0 < 2 * x" using Suc.prems by simp
      have "(2 :: real) powi (- int (Suc n) + 1) = 2 powi (- int (Suc n)) * 2"
        by (subst power_int_add) simp_all
      moreover have "- int (Suc n) + 1 = - int n" by simp
      ultimately have "2 powi (- int (Suc n)) * 2 = (2 :: real) powi (- int n)"
        by simp
      then have b: "2 powi (- int n) \<le> 2 * x" using Suc.prems(2) by linarith
      have "(2 :: real) \<le> 2 powi (int n + 1)"
        by (simp add: power_int_add)
      then have c: "2 * x < 2 powi (int n + 1)" using True by linarith
      from Suc.IH [OF a b c] True False show ?thesis
        by (simp add: power_int_diff power_int_add)
    next
      case nl: False
      with False show ?thesis by simp
    qed
  qed
qed

lemma pow2_le: "a \<le> b \<Longrightarrow> (2 :: real) powi a \<le> 2 powi b"
  by (rule power_int_increasing) simp_all

lemma pow2_less_exp: "(2 :: real) powi a < 2 powi b \<Longrightarrow> a < b"
proof (rule ccontr)
  assume lt: "(2 :: real) powi a < 2 powi b" and "\<not> a < b"
  then have "b \<le> a" by simp
  from pow2_le [OF this] lt show False by simp
qed

lemma pow2_split: "(2 :: real) powi (a + b) = 2 powi a * 2 powi b"
  by (rule power_int_add) simp

lemma pow2_pos: "0 < (2 :: real) powi a"
  by simp

lemma binade_normal:
  assumes "2 powi (- 1022) \<le> x" and "x < 2 ^ 1024"
  shows "2 powi (binade 1024 x) \<le> x" and "x < 2 powi (binade 1024 x + 1)"
    and "- 1022 \<le> binade 1024 x" and "binade 1024 x \<le> 1023"
proof -
  have pos: "0 < x"
    using assms(1) pow2_pos [of "- 1022"] by linarith
  have lo: "2 powi (- int 1024) \<le> x"
    using pow2_le [of "- int 1024" "- 1022"] assms(1) by simp
  have "(2 :: real) ^ 1024 \<le> 2 powi (int 1024 + 1)"
    using pow2_le [of 1024 "int 1024 + 1"] by simp
  then have hi: "x < 2 powi (int 1024 + 1)"
    using assms(2) by linarith
  from binade_spec [OF pos lo hi]
  show a: "2 powi (binade 1024 x) \<le> x" and b: "x < 2 powi (binade 1024 x + 1)"
    by simp_all
  have "(2 :: real) powi (- 1022) < 2 powi (binade 1024 x + 1)"
    using assms(1) b by linarith
  from pow2_less_exp [OF this] show "- 1022 \<le> binade 1024 x" by simp
  have "(2 :: real) powi (binade 1024 x) < 2 powi 1024"
    using a assms(2) by simp
  from pow2_less_exp [OF this] show "binade 1024 x \<le> 1023" by simp
qed

lemma binade_unique:
  assumes "2 powi e \<le> x" and "x < 2 powi (e + 1)" and "- 1022 \<le> e" and "e \<le> 1023"
  shows "binade 1024 x = e"
proof -
  have lo: "2 powi (- 1022) \<le> x"
    using pow2_le [OF assms(3)] assms(1) by linarith
  have "(2 :: real) powi (e + 1) \<le> 2 powi 1024"
    using assms(4) by (intro pow2_le) simp
  then have hi: "x < 2 ^ 1024"
    using assms(2) by simp
  note b = binade_normal [OF lo hi]
  have "(2 :: real) powi (binade 1024 x) < 2 powi (e + 1)"
    using b(1) assms(2) by linarith
  then have "binade 1024 x < e + 1" by (rule pow2_less_exp)
  moreover have "(2 :: real) powi e < 2 powi (binade 1024 x + 1)"
    using b(2) assms(1) by linarith
  then have "e < binade 1024 x + 1" by (rule pow2_less_exp)
  ultimately show ?thesis by simp
qed

lemma binary64_pos_scaled:
  "binary64_pos x =
     (if 2 ^ 1024 \<le> x then PosInfinity
      else if 2 ^ 1024 \<le> scaled (quantum x) x then PosInfinity
      else Num (scaled (quantum x) x))"
  by (simp add: binary64_pos_def scaled_def Let_def)

lemma scaled_bounds:
  assumes "2 powi (q + 52) \<le> x" and "x < 2 powi (q + 53)"
  shows "2 powi (q + 52) \<le> scaled q x" and "scaled q x \<le> 2 powi (q + 53)"
proof -
  have a: "2 ^ 52 \<le> x / 2 powi q"
    using assms(1) by (simp add: pow2_split pos_le_divide_eq mult.commute)
  have b: "x / 2 powi q \<le> 2 ^ 53"
    using assms(2) by (simp add: pow2_split pos_divide_le_eq mult.commute)
  have "rne (of_int (2 ^ 52)) \<le> rne (x / 2 powi q)"
    using a by (intro rne_mono) simp
  then have "(2 :: real) ^ 52 \<le> of_int (rne (x / 2 powi q))"
    by (simp only: rne_of_int) (metis of_int_le_iff of_int_numeral of_int_power)
  then have "(2 :: real) ^ 52 * 2 powi q \<le> of_int (rne (x / 2 powi q)) * 2 powi q"
    by (intro mult_right_mono) simp_all
  then show "2 powi (q + 52) \<le> scaled q x"
    by (simp add: scaled_def pow2_split mult.commute)
  have "rne (x / 2 powi q) \<le> rne (of_int (2 ^ 53))"
    using b by (intro rne_mono) simp
  then have "of_int (rne (x / 2 powi q)) \<le> (2 :: real) ^ 53"
    by (simp only: rne_of_int) (metis of_int_le_iff of_int_numeral of_int_power)
  then have "of_int (rne (x / 2 powi q)) * 2 powi q \<le> (2 :: real) ^ 53 * 2 powi q"
    by (intro mult_right_mono) simp_all
  then show "scaled q x \<le> 2 powi (q + 53)"
    by (simp add: scaled_def pow2_split mult.commute)
qed

lemma scaled_subnormal:
  assumes "0 \<le> x" and "x < 2 powi (- 1022)"
  shows "0 \<le> scaled (- 1074) x" and "scaled (- 1074) x \<le> 2 powi (- 1022)"
proof -
  have "rne (of_int 0) \<le> rne (x / 2 powi (- 1074))"
    using assms(1) by (intro rne_mono) simp
  then have "0 \<le> rne (x / 2 powi (- 1074))"
    by (simp only: rne_of_int)
  then show "0 \<le> scaled (- 1074) x"
    by (simp add: scaled_def)
  have "(2 :: real) powi (- 1022) = 2 powi (- 1074 + 52)" by simp
  also have "\<dots> = 2 powi (- 1074) * 2 ^ 52" by (subst pow2_split) simp
  finally have e: "(2 :: real) powi (- 1022) = 2 powi (- 1074) * 2 ^ 52" .
  have b: "x / 2 powi (- 1074) \<le> 2 ^ 52"
    using assms(2) unfolding e by (simp add: pos_divide_le_eq mult.commute)
  have "rne (x / 2 powi (- 1074)) \<le> rne (of_int (2 ^ 52))"
    using b by (intro rne_mono) simp
  then have "of_int (rne (x / 2 powi (- 1074))) \<le> (2 :: real) ^ 52"
    by (simp only: rne_of_int) (metis of_int_le_iff of_int_numeral of_int_power)
  then have "of_int (rne (x / 2 powi (- 1074))) * 2 powi (- 1074)
      \<le> (2 :: real) ^ 52 * 2 powi (- 1074)"
    by (intro mult_right_mono) simp_all
  then show "scaled (- 1074) x \<le> 2 powi (- 1022)"
    unfolding e by (simp add: scaled_def mult.commute)
qed

lemma quantum_eval:
  assumes "2 powi e \<le> x" and "x < 2 powi (e + 1)" and "- 1022 \<le> e" and "e \<le> 1023"
  shows "quantum x = e - 52"
proof -
  have "2 powi (- 1022) \<le> x"
    using pow2_le [OF assms(3)] assms(1) by linarith
  then show ?thesis
    using binade_unique [OF assms] by (simp add: quantum_def)
qed

lemma quantum_normal:
  assumes "2 powi (- 1022) \<le> x" and "x < 2 ^ 1024"
  shows "2 powi (quantum x + 52) \<le> x" and "x < 2 powi (quantum x + 53)"
    and "- 1074 \<le> quantum x" and "quantum x \<le> 971"
proof -
  have q: "quantum x = binade 1024 x - 52"
    using assms(1) by (simp add: quantum_def)
  note b = binade_normal [OF assms]
  show "2 powi (quantum x + 52) \<le> x" using b(1) by (simp add: q)
  have "quantum x + 53 = binade 1024 x + 1" by (simp add: q)
  then show "x < 2 powi (quantum x + 53)" using b(2) by (simp only:)
  show "- 1074 \<le> quantum x" using b(3) by (simp add: q)
  show "quantum x \<le> 971" using b(4) by (simp add: q)
qed

lemma scaled_quantum_mono:
  assumes "0 \<le> x" and "x \<le> y" and "y < 2 ^ 1024"
  shows "scaled (quantum x) x \<le> scaled (quantum y) y"
proof (cases "y < 2 powi (- 1022)")
  case True
  then have "x < 2 powi (- 1022)" using assms(2) by linarith
  then have "quantum x = - 1074" "quantum y = - 1074"
    using True by (simp_all add: quantum_def)
  moreover have "rne (x / 2 powi (- 1074)) \<le> rne (y / 2 powi (- 1074))"
    using assms(2) by (intro rne_mono divide_right_mono) simp_all
  ultimately show ?thesis
    by (simp add: scaled_def mult_right_mono)
next
  case False
  then have ny: "2 powi (- 1022) \<le> y" by simp
  note qy = quantum_normal [OF ny assms(3)]
  have ly: "2 powi (quantum y + 52) \<le> scaled (quantum y) y"
    using scaled_bounds(1) [OF qy(1) qy(2)] .
  show ?thesis
  proof (cases "x < 2 powi (- 1022)")
    case True
    then have qx: "quantum x = - 1074" by (simp add: quantum_def)
    have "scaled (- 1074) x \<le> 2 powi (- 1022)"
      using scaled_subnormal(2) [OF assms(1) True] .
    also have "\<dots> \<le> 2 powi (quantum y + 52)"
      using qy(3) by (intro pow2_le) simp
    finally show ?thesis using ly qx by simp
  next
    case nx: False
    then have nx': "2 powi (- 1022) \<le> x" by simp
    have hx: "x < 2 ^ 1024" using assms(2,3) by linarith
    note qx = quantum_normal [OF nx' hx]
    have "(2 :: real) powi (quantum x + 52) < 2 powi (quantum y + 53)"
      using qx(1) assms(2) qy(2) by linarith
    then have "quantum x + 52 < quantum y + 53" by (rule pow2_less_exp)
    then have le: "quantum x \<le> quantum y" by simp
    show ?thesis
    proof (cases "quantum x = quantum y")
      case True
      have "rne (x / 2 powi (quantum y)) \<le> rne (y / 2 powi (quantum y))"
        using assms(2) by (intro rne_mono divide_right_mono) simp_all
      then show ?thesis
        using True by (simp add: scaled_def mult_right_mono)
    next
      case False
      with le have "quantum x + 53 \<le> quantum y + 52" by simp
      then have "(2 :: real) powi (quantum x + 53) \<le> 2 powi (quantum y + 52)"
        by (rule pow2_le)
      with scaled_bounds(2) [OF qx(1) qx(2)] ly show ?thesis by linarith
    qed
  qed
qed

lemma binary64_pos_cases:
  "binary64_pos x = PosInfinity \<or> (\<exists>v. binary64_pos x = Num v)"
  by (simp add: binary64_pos_scaled)

lemma binary64_pos_mono:
  assumes "0 \<le> x" and "x \<le> y"
  shows "js_le (binary64_pos x) (binary64_pos y)"
proof (cases "2 ^ 1024 \<le> y")
  case True
  then have "binary64_pos y = PosInfinity" by (simp add: binary64_pos_scaled)
  then show ?thesis
    using binary64_pos_cases [of x] by (auto simp: js_le_def)
next
  case False
  then have hy: "y < 2 ^ 1024" by simp
  then have hx: "\<not> 2 ^ 1024 \<le> x" using assms(2) by linarith
  note m = scaled_quantum_mono [OF assms hy]
  show ?thesis
    using m False hx by (auto simp: binary64_pos_scaled js_le_def)
qed

lemma binary64_pos_nonneg:
  assumes "0 \<le> x" and "binary64_pos x = Num v"
  shows "0 \<le> v"
proof -
  have v: "v = scaled (quantum x) x"
    using assms(2) by (auto simp: binary64_pos_scaled split: if_splits)
  have "rne (of_int 0) \<le> rne (x / 2 powi quantum x)"
    using assms(1) by (intro rne_mono) simp
  then have "0 \<le> rne (x / 2 powi quantum x)" by (simp only: rne_of_int)
  then show ?thesis by (simp add: v scaled_def)
qed

lemma scaled_of_int: "scaled q (of_int m * 2 powi q) = of_int m * 2 powi q"
  by (simp add: scaled_def)

lemma binary64_pos_representable:
  assumes "0 \<le> x" and "binary64_pos x = Num v"
  shows "binary64_pos v = Num v"
proof -
  have hx: "x < 2 ^ 1024" and hv: "v < 2 ^ 1024" and v: "v = scaled (quantum x) x"
    using assms(2) by (auto simp: binary64_pos_scaled split: if_splits)
  have vm: "v = of_int (rne (x / 2 powi quantum x)) * 2 powi quantum x"
    by (simp add: v scaled_def)
  have same: "quantum v = quantum x \<Longrightarrow> ?thesis"
  proof -
    assume q: "quantum v = quantum x"
    have "scaled (quantum v) v = v"
      unfolding q by (subst (1 2) vm) (rule scaled_of_int)
    then show ?thesis using hv by (simp add: binary64_pos_scaled)
  qed
  show ?thesis
  proof (cases "x < 2 powi (- 1022)")
    case True
    then have qx: "quantum x = - 1074" by (simp add: quantum_def)
    have le: "v \<le> 2 powi (- 1022)"
      using scaled_subnormal(2) [OF assms(1) True] by (simp add: v qx)
    show ?thesis
    proof (cases "v < 2 powi (- 1022)")
      case True
      then have "quantum v = - 1074" by (simp add: quantum_def)
      with qx same show ?thesis by simp
    next
      case False
      with le have "v = 2 powi (- 1022)" by simp
      then have "2 powi (- 1022) \<le> v" "v < 2 powi (- 1022 + 1)"
        by (simp_all add: power_int_strict_increasing)
      then have "quantum v = - 1022 - 52"
        by (intro quantum_eval) simp_all
      with qx same show ?thesis by simp
    qed
  next
    case False
    then have nx: "2 powi (- 1022) \<le> x" by simp
    note qx = quantum_normal [OF nx hx]
    note sb = scaled_bounds [OF qx(1) qx(2)]
    show ?thesis
    proof (cases "v < 2 powi (quantum x + 53)")
      case True
      have "quantum v = (quantum x + 52) - 52"
      proof (rule quantum_eval)
        show "2 powi (quantum x + 52) \<le> v" using sb(1) by (simp add: v)
        show "v < 2 powi (quantum x + 52 + 1)" using True by (simp add: add.assoc)
        show "- 1022 \<le> quantum x + 52" using qx(3) by simp
        show "quantum x + 52 \<le> 1023" using qx(4) by simp
      qed
      with same show ?thesis by simp
    next
      case False
      with sb(2) have top: "v = 2 powi (quantum x + 53)" by (simp add: v)
      have "(2 :: real) powi (quantum x + 53) < 2 powi 1024"
        using hv top by simp
      then have lt: "quantum x + 53 < 1024" by (rule pow2_less_exp)
      have qv: "quantum v = (quantum x + 53) - 52"
      proof (rule quantum_eval)
        show "2 powi (quantum x + 53) \<le> v" by (simp add: top)
        show "v < 2 powi (quantum x + 53 + 1)"
          unfolding top by (rule power_int_strict_increasing) simp_all
        show "- 1022 \<le> quantum x + 53" using qx(3) by simp
        show "quantum x + 53 \<le> 1023" using lt by simp
      qed
      have "v = of_int (2 ^ 52) * 2 powi (quantum x + 1)"
      proof -
        have "quantum x + 53 = 52 + (quantum x + 1)" by simp
        then have "(2 :: real) powi (quantum x + 53) = 2 powi 52 * 2 powi (quantum x + 1)"
          by (simp only: pow2_split)
        then show ?thesis by (simp add: top)
      qed
      then have "scaled (quantum x + 1) v = v"
        using scaled_of_int [of "quantum x + 1" "2 ^ 52"] by simp
      moreover have "quantum v = quantum x + 1" using qv by simp
      ultimately show ?thesis using hv by (simp add: binary64_pos_scaled)
    qed
  qed
qed

lemma binary64_pos_error:
  assumes "2 powi (- 1022) \<le> x" and "binary64_pos x = Num v"
  shows "\<bar>v - x\<bar> \<le> x / 2 ^ 53"
proof -
  have hx: "x < 2 ^ 1024" and v: "v = scaled (quantum x) x"
    using assms(2) by (auto simp: binary64_pos_scaled split: if_splits)
  note qx = quantum_normal [OF assms(1) hx]
  define p where "p = (2 :: real) powi quantum x"
  define y where "y = x / p"
  have pp: "0 < p" by (simp add: p_def)
  have xy: "x = y * p" using pp by (simp add: y_def)
  have "\<bar>of_int (rne y) - y\<bar> \<le> 1 / 2"
    using rne_lower [of y] rne_upper [of y] by linarith
  then have "\<bar>of_int (rne y) - y\<bar> * p \<le> 1 / 2 * p"
    using pp by (intro mult_right_mono) simp_all
  moreover have "v = of_int (rne y) * p"
    by (simp add: v scaled_def p_def y_def)
  then have "v - x = (of_int (rne y) - y) * p"
    by (simp add: xy algebra_simps)
  ultimately have e: "\<bar>v - x\<bar> \<le> p / 2"
    using pp by (simp add: abs_mult)
  have "2 powi (quantum x + 52) = p * 2 ^ 52"
    by (simp add: p_def pow2_split)
  then have "p * 2 ^ 52 \<le> x" using qx(1) by simp
  then have "p / 2 \<le> x / 2 ^ 53" by (simp add: field_simps)
  with e show ?thesis by linarith
qed

lemma binary64_pos_eval:
  assumes "2 powi e \<le> x" and "x < 2 powi (e + 1)" and "- 1022 \<le> e" and "e \<le> 1023"
  shows "binary64_pos x =
     (if 2 ^ 1024 \<le> scaled (e - 52) x then PosInfinity else Num (scaled (e - 52) x))"
proof -
  have "(2 :: real) powi (e + 1) \<le> 2 powi 1024"
    using assms(4) by (intro pow2_le) simp
  then have "x < 2 ^ 1024" using assms(2) by simp
  then show ?thesis
    using quantum_eval [OF assms] by (simp add: binary64_pos_scaled)
qed

lemma binary64_pos_0: "binary64_pos 0 = Num 0"
  using rne_of_int [of 0] by (simp add: binary64_pos_scaled scaled_def)

section \<open>Properties of the Playback Scheduler\<close>

lemma binary64_nonneg: "0 \<le> x \<Longrightarrow> binary64 x = binary64_pos x"
  by (simp add: binary64_def)

lemma is_binary64_pos: "0 \<le> v \<Longrightarrow> is_binary64 v \<Longrightarrow> binary64_pos v = Num v"
  by (simp add: is_binary64_def binary64_def)

lemma js_le_Num [simp]: "js_le (Num x) (Num y) = (x \<le> y)"
  by (simp add: js_le_def)

lemma js_le_PosInfinity [simp]: "js_le (Num x) PosInfinity" "js_le PosInfinity PosInfinity"
  by (simp_all add: js_le_def)

lemma js_le_PosInfinity_Num [simp]: "\<not> js_le PosInfinity (Num x)"
  by (simp add: js_le_def)

lemma cursor_value_cases:
  assumes "cursor_value c"
  obtains "c = PosInfinity" | v where "c = Num v" and "0 \<le> v" and "is_binary64 v"
  using assms by (cases c) (auto simp: cursor_value_def)

lemma cursor_value_trans:
  "cursor_value a \<Longrightarrow> cursor_value b \<Longrightarrow> cursor_value c \<Longrightarrow> js_le a b \<Longrightarrow> js_le b c \<Longrightarrow> js_le a c"
  by (cases a; cases b; cases c) (auto simp: js_le_def cursor_value_def)

lemma cursor_value_refl: "cursor_value a \<Longrightarrow> js_le a a"
  by (cases a) (auto simp: js_le_def cursor_value_def)

lemma plus_step:
  assumes "0 \<le> t" and "is_binary64 t" and "0 \<le> x"
  shows "cursor_value (js_plus (Num t) (binary64 x))"
    and "js_le (Num t) (js_plus (Num t) (binary64 x))"
proof -
  have bx: "binary64 x = binary64_pos x" using assms(3) by (rule binary64_nonneg)
  have both: "cursor_value (js_plus (Num t) (binary64 x)) \<and>
      js_le (Num t) (js_plus (Num t) (binary64 x))"
  proof (cases "binary64_pos x")
    case (Num d)
    have d: "0 \<le> d" using binary64_pos_nonneg [OF assms(3) Num] .
    have sum: "0 \<le> t + d" using assms(1) d by simp
    have eq: "js_plus (Num t) (binary64 x) = binary64_pos (t + d)"
      using sum by (simp add: bx Num binary64_nonneg)
    show ?thesis
    proof (cases "binary64_pos (t + d)")
      case inner: (Num c')
      have c': "0 \<le> c'" using binary64_pos_nonneg [OF sum inner] .
      have "binary64_pos c' = Num c'" using binary64_pos_representable [OF sum inner] .
      then have rep: "is_binary64 c'" using c' by (simp add: is_binary64_def binary64_nonneg)
      have "js_le (binary64_pos t) (binary64_pos (t + d))"
        using assms(1) d by (intro binary64_pos_mono) simp_all
      then have "t \<le> c'"
        using is_binary64_pos [OF assms(1,2)] inner by simp
      then show ?thesis
        using c' rep by (simp add: eq inner cursor_value_def)
    next
      case PosInfinity
      then show ?thesis by (simp add: eq cursor_value_def)
    next
      case NegInfinity
      then show ?thesis using binary64_pos_cases [of "t + d"] by auto
    next
      case NaN
      then show ?thesis using binary64_pos_cases [of "t + d"] by auto
    qed
  next
    case PosInfinity
    then show ?thesis by (simp add: bx cursor_value_def)
  next
    case NegInfinity
    then show ?thesis using binary64_pos_cases [of x] by auto
  next
    case NaN
    then show ?thesis using binary64_pos_cases [of x] by auto
  qed
  then show "cursor_value (js_plus (Num t) (binary64 x))"
    and "js_le (Num t) (js_plus (Num t) (binary64 x))"
    by simp_all
qed

lemma tiny_normal: "2 powi (- 1022) \<le> (1 / 48000 :: real)"
  by simp

lemma plus_bound:
  assumes "0 \<le> t" and "1 / 24000 \<le> x" and "js_plus (Num t) (binary64 x) = Num c'"
  shows "\<bar>c' - (t + x)\<bar> \<le> (t + x) / 2 ^ 51"
proof -
  have x0: "0 \<le> x" using assms(2) by simp
  have bx: "binary64 x = binary64_pos x" using x0 by (rule binary64_nonneg)
  obtain d where d: "binary64_pos x = Num d"
    using assms(3) binary64_pos_cases [of x] by (auto simp: bx)
  have nx: "2 powi (- 1022) \<le> x"
    using tiny_normal assms(2) by linarith
  have ed: "\<bar>d - x\<bar> \<le> x / 2 ^ 53"
    using binary64_pos_error [OF nx d] .
  have d0: "0 \<le> d" using binary64_pos_nonneg [OF x0 d] .
  have sum: "0 \<le> t + d" using assms(1) d0 by simp
  have c: "binary64_pos (t + d) = Num c'"
    using assms(3) sum by (simp add: bx d binary64_nonneg)
  have E: "(2 :: real) ^ 53 = 9007199254740992" "(2 :: real) ^ 51 = 2251799813685248"
    by simp_all
  have "1 / 48000 \<le> d" using ed assms(2) unfolding E by linarith
  then have ns: "2 powi (- 1022) \<le> t + d"
    using tiny_normal assms(1) by linarith
  have ec: "\<bar>c' - (t + d)\<bar> \<le> (t + d) / 2 ^ 53"
    using binary64_pos_error [OF ns c] .
  have d1: "d \<le> x + x / 9007199254740992" and d2: "x - x / 9007199254740992 \<le> d"
    using ed unfolding E by linarith+
  have c1: "c' \<le> (t + d) + (t + d) / 9007199254740992"
    and c2: "(t + d) - (t + d) / 9007199254740992 \<le> c'"
    using ec unfolding E by argo+
  have "c' - (t + x) \<le> (t + x) / 2251799813685248"
    using d1 c1 assms(1) x0 by argo
  moreover have "- (c' - (t + x)) \<le> (t + x) / 2251799813685248"
    using d2 c2 assms(1) x0 by argo
  ultimately show ?thesis
    unfolding E by (simp only: abs_le_iff)
qed

lemma create_context_facts:
  "fst (create_context s) = length (contexts s)"
  "contexts (snd (create_context s)) = contexts s @ [new_AudioContext AUDIO_RECEIVE_SAMPLE_RATE]"
  "ctxRef (snd (create_context s)) = Some (length (contexts s))"
  "nextTimeRef (snd (create_context s)) = nextTimeRef s"
  "isPlayingRef (snd (create_context s)) = isPlayingRef s"
  by (simp_all add: create_context_def)

lemma update_context_fields [simp]:
  "nextTimeRef (update_context i f s) = nextTimeRef s"
  "isPlayingRef (update_context i f s) = isPlayingRef s"
  "ctxRef (update_context i f s) = ctxRef s"
  "length (contexts (update_context i f s)) = length (contexts s)"
  by (simp_all add: update_context_def)

lemma getContext_nextTimeRef: "nextTimeRef (snd (getContext s)) = nextTimeRef s"
  by (auto simp: getContext_def create_context_def Let_def split: option.splits prod.splits)

lemma length_int16_view: "length (int16_view xs) = length xs div 2"
  by (induction xs rule: int16_view.induct) simp_all

lemma length_float32: "length (to_float32 (int16_view xs)) = length xs div 2"
  by (simp add: to_float32_def length_int16_view)

lemma nonempty_frames:
  assumes "even (length pcmData)" and "pcmData \<noteq> []"
  shows "length (to_float32 (int16_view pcmData)) \<noteq> 0" and "1 \<le> length pcmData div 2"
proof -
  have "length pcmData \<noteq> 0" using assms(2) by simp
  then show "1 \<le> length pcmData div 2" using assms(1) by presburger
  then show "length (to_float32 (int16_view pcmData)) \<noteq> 0"
    by (simp add: length_float32)
qed

lemma playChunk_accepts:
  assumes "getContext s = (i, s1)" and "even (length pcmData)" and "pcmData \<noteq> []"
    and "nextTimeRef s = Num c" and "0 \<le> max now c"
  shows "playChunk now pcmData s =
     ((update_context i
         (\<lambda>x. x\<lparr>ctx_sources := ctx_sources x @
            [\<lparr>source_samples = to_float32 (int16_view pcmData), source_start = max now c\<rparr>]\<rparr>) s1)
        \<lparr>nextTimeRef := js_plus (Num (max now c)) (buffer_duration (length pcmData div 2)),
         isPlayingRef := True\<rparr>,
      Inr \<lparr>source_samples = to_float32 (int16_view pcmData), source_start = max now c\<rparr>)"
proof -
  have n: "nextTimeRef s1 = Num c"
    using getContext_nextTimeRef [of s] assms(1,4) by simp
  have m: "\<not> max now c < 0" using assms(5) by linarith
  show ?thesis
    using assms(2) nonempty_frames(1) [OF assms(2,3)] m
    by (simp add: playChunk_def assms(1) n Let_def length_float32
        del: length_0_conv max_less_iff_conj)
qed

lemma playChunk_raises:
  assumes "getContext s = (i, s1)"
    and "odd (length pcmData) \<or> pcmData = [] \<or> nextTimeRef s = PosInfinity
      \<or> (\<exists>c. nextTimeRef s = Num c \<and> max now c < 0)"
  shows "\<exists>e. playChunk now pcmData s = (s1, Inl e)"
proof -
  have n: "nextTimeRef s1 = nextTimeRef s"
    using getContext_nextTimeRef [of s] assms(1) by simp
  show ?thesis
  proof (cases "odd (length pcmData)")
    case True
    then show ?thesis by (simp add: playChunk_def assms(1))
  next
    case ev: False
    show ?thesis
    proof (cases "length (to_float32 (int16_view pcmData)) = 0")
      case True
      then show ?thesis using ev by (simp add: playChunk_def assms(1) Let_def)
    next
      case ne: False
      then have "pcmData \<noteq> []" by (auto simp: to_float32_def)
      with assms(2) ev
      consider "nextTimeRef s = PosInfinity" | c where "nextTimeRef s = Num c" "max now c < 0"
        by auto
      then show ?thesis
      proof cases
        case 1
        then show ?thesis
          using ev ne by (simp add: playChunk_def assms(1) n Let_def del: length_0_conv)
      next
        case 2
        then show ?thesis
          using ev ne
          by (simp add: playChunk_def assms(1) n Let_def del: length_0_conv max_less_iff_conj)
      qed
    qed
  qed
qed

lemma playChunk_inversion:
  assumes "playChunk now pcmData s = (s2, r)" and "cursor_value (nextTimeRef s)"
  shows "(\<exists>e. r = Inl e \<and> s2 = snd (getContext s)) \<or>
     (\<exists>c. nextTimeRef s = Num c \<and> 0 \<le> max now c \<and> even (length pcmData) \<and> pcmData \<noteq> [] \<and>
        r = Inr \<lparr>source_samples = to_float32 (int16_view pcmData), source_start = max now c\<rparr> \<and>
        nextTimeRef s2 = js_plus (Num (max now c)) (buffer_duration (length pcmData div 2)))"
proof -
  obtain i s1 where g: "getContext s = (i, s1)" by (cases "getContext s")
  show ?thesis
  proof (cases "odd (length pcmData) \<or> pcmData = [] \<or> nextTimeRef s = PosInfinity
      \<or> (\<exists>c. nextTimeRef s = Num c \<and> max now c < 0)")
    case True
    from playChunk_raises [OF g True] assms(1) g show ?thesis by auto
  next
    case False
    then have ev: "even (length pcmData)" and ne: "pcmData \<noteq> []"
      and fin: "nextTimeRef s \<noteq> PosInfinity"
      and pos: "\<And>c. nextTimeRef s = Num c \<Longrightarrow> 0 \<le> max now c"
      by (simp_all add: not_less del: max_less_iff_conj)
    from assms(2) fin obtain c where c: "nextTimeRef s = Num c"
      by (auto elim: cursor_value_cases)
    from playChunk_accepts [OF g ev ne c pos [OF c]] assms(1) c pos [OF c] ev ne
    show ?thesis by auto
  qed
qed

lemma playChunk_step:
  assumes "clock_reading now" and "cursor_value (nextTimeRef s)"
    and "playChunk now pcmData s = (s2, r)"
  shows "cursor_value (nextTimeRef s2)"
    and "js_le (nextTimeRef s) (nextTimeRef s2)"
    and "\<And>u. r = Inr u \<Longrightarrow> js_le (nextTimeRef s) (Num (source_start u))"
    and "\<And>u. r = Inr u \<Longrightarrow> js_le (Num (source_start u)) (nextTimeRef s2)"
    and "\<And>u c'. r = Inr u \<Longrightarrow> nextTimeRef s2 = Num c' \<Longrightarrow>
           \<bar>c' - source_end u\<bar> \<le> source_end u / 2 ^ 51"
proof -
  from playChunk_inversion [OF assms(3,2)]
  consider e where "r = Inl e" "s2 = snd (getContext s)"
    | c where "nextTimeRef s = Num c" "0 \<le> max now c" "even (length pcmData)" "pcmData \<noteq> []"
        "r = Inr \<lparr>source_samples = to_float32 (int16_view pcmData), source_start = max now c\<rparr>"
        "nextTimeRef s2 = js_plus (Num (max now c)) (buffer_duration (length pcmData div 2))"
    by blast
  then have all: "cursor_value (nextTimeRef s2) \<and> js_le (nextTimeRef s) (nextTimeRef s2) \<and>
    (\<forall>u. r = Inr u \<longrightarrow> js_le (nextTimeRef s) (Num (source_start u)) \<and>
       js_le (Num (source_start u)) (nextTimeRef s2) \<and>
       (\<forall>c'. nextTimeRef s2 = Num c' \<longrightarrow> \<bar>c' - source_end u\<bar> \<le> source_end u / 2 ^ 51))"
  proof cases
    case 1
    then show ?thesis
      using assms(2) by (simp add: getContext_nextTimeRef cursor_value_refl)
  next
    case 2
    have c0: "0 \<le> c" and cr: "is_binary64 c"
      using assms(2) 2(1) by (simp_all add: cursor_value_def)
    have t0: "0 \<le> max now c" by (rule 2(2))
    have tr: "is_binary64 (max now c)"
      using assms(1) cr by (simp add: clock_reading_def max_def)
    define n where "n = length pcmData div 2"
    have n1: "1 \<le> n" using nonempty_frames(2) [OF 2(3,4)] by (simp add: n_def)
    define x where "x = real n / real AUDIO_RECEIVE_SAMPLE_RATE"
    have x1: "1 / 24000 \<le> x"
      using n1 by (simp add: x_def AUDIO_RECEIVE_SAMPLE_RATE_def field_simps)
    then have x0: "0 \<le> x" by simp
    have cur: "nextTimeRef s2 = js_plus (Num (max now c)) (binary64 x)"
      by (simp add: 2(6) buffer_duration_def x_def n_def)
    note st = plus_step [OF t0 tr x0]
    have le: "js_le (Num c) (nextTimeRef s2)"
    proof (rule cursor_value_trans [of _ "Num (max now c)"])
      show "cursor_value (Num c)" using assms(2) 2(1) by simp
      show "cursor_value (Num (max now c))" using t0 tr by (simp add: cursor_value_def)
      show "cursor_value (nextTimeRef s2)" using st(1) by (simp add: cur)
      show "js_le (Num c) (Num (max now c))" by simp
      show "js_le (Num (max now c)) (nextTimeRef s2)" using st(2) by (simp add: cur)
    qed
    have en: "source_end \<lparr>source_samples = to_float32 (int16_view pcmData),
        source_start = max now c\<rparr> = max now c + x"
      by (simp add: source_end_def source_duration_def length_float32 x_def n_def)
    have bd: "\<And>c'. nextTimeRef s2 = Num c' \<Longrightarrow> \<bar>c' - (max now c + x)\<bar> \<le> (max now c + x) / 2 ^ 51"
      using plus_bound [OF t0 x1] by (simp add: cur)
    show ?thesis
      using st le bd by (simp add: 2(1) 2(5) cur en)
  qed
  from all show "cursor_value (nextTimeRef s2)" and "js_le (nextTimeRef s) (nextTimeRef s2)"
    by simp_all
  from all show "\<And>u. r = Inr u \<Longrightarrow> js_le (nextTimeRef s) (Num (source_start u))"
    and "\<And>u. r = Inr u \<Longrightarrow> js_le (Num (source_start u)) (nextTimeRef s2)"
    and "\<And>u c'. r = Inr u \<Longrightarrow> nextTimeRef s2 = Num c' \<Longrightarrow>
           \<bar>c' - source_end u\<bar> \<le> source_end u / 2 ^ 51"
    by blast+
qed

lemma onended_nextTimeRef: "nextTimeRef (onended now s) = nextTimeRef s"
  by (simp add: onended_def)

lemma run_playback_invariant:
  assumes "cursor_value (nextTimeRef s)" and "list_all call_clock cs"
    and "run_playback cs s = (s', us)"
  shows "cursor_value (nextTimeRef s') \<and> js_le (nextTimeRef s) (nextTimeRef s') \<and>
     (\<forall>u \<in> set us. js_le (nextTimeRef s) (Num (source_start u))) \<and> chained us"
  using assms
proof (induction cs s arbitrary: s' us rule: run_playback.induct)
  case (1 s)
  then show ?case by (simp add: cursor_value_refl)
next
  case (2 now cs s)
  have "cursor_value (nextTimeRef (onended now s))"
    using "2.prems"(1) by (simp add: onended_nextTimeRef)
  moreover have "list_all call_clock cs" using "2.prems"(2) by simp
  moreover have "run_playback cs (onended now s) = (s', us)" using "2.prems"(3) by simp
  ultimately show ?case
    using "2.IH" [of s' us] by (simp add: onended_nextTimeRef)
next
  case (3 now pcmData cs s)
  obtain s1 r where p: "playChunk now pcmData s = (s1, r)"
    by (cases "playChunk now pcmData s")
  obtain s2 vs where q: "run_playback cs s1 = (s2, vs)"
    by (cases "run_playback cs s1")
  have clk: "clock_reading now" and rest: "list_all call_clock cs"
    using "3.prems"(2) by simp_all
  note step = playChunk_step [OF clk "3.prems"(1) p]
  have ih: "cursor_value (nextTimeRef s2) \<and> js_le (nextTimeRef s1) (nextTimeRef s2) \<and>
     (\<forall>u \<in> set vs. js_le (nextTimeRef s1) (Num (source_start u))) \<and> chained vs"
    using "3.IH" [OF p [symmetric] refl step(1) rest q] .
  have s': "s' = s2" using "3.prems"(3) p q by simp
  have mono: "js_le (nextTimeRef s) (nextTimeRef s2)"
    using cursor_value_trans [OF "3.prems"(1) step(1) _ step(2)] ih by simp
  have starts: "\<forall>u \<in> set vs. js_le (nextTimeRef s) (Num (source_start u))"
  proof
    fix u assume "u \<in> set vs"
    with ih have a: "js_le (nextTimeRef s1) (Num (source_start u))" by simp
    then obtain c1 where c1: "nextTimeRef s1 = Num c1"
      using step(1) by (auto elim: cursor_value_cases)
    with a have le: "c1 \<le> source_start u" by simp
    from "3.prems"(1) show "js_le (nextTimeRef s) (Num (source_start u))"
    proof (cases rule: cursor_value_cases)
      case 1
      with step(2) c1 show ?thesis by simp
    next
      case (2 v)
      with step(2) c1 le show ?thesis by simp
    qed
  qed
  show ?case
  proof (cases r)
    case (Inl e)
    then have "us = vs" using "3.prems"(3) p q by simp
    with ih mono starts s' show ?thesis by simp
  next
    case (Inr u)
    then have us: "us = u # vs" using "3.prems"(3) p q by simp
    have ch: "chained (u # vs)"
    proof (cases vs)
      case Nil
      then show ?thesis by simp
    next
      case (Cons v ws)
      with ih have a: "js_le (nextTimeRef s1) (Num (source_start v))" by simp
      then obtain c1 where c1: "nextTimeRef s1 = Num c1"
        using step(1) by (auto elim: cursor_value_cases)
      with a have le: "c1 \<le> source_start v" by simp
      have "\<bar>c1 - source_end u\<bar> \<le> source_end u / 2 ^ 51"
        using step(5) [OF Inr c1] .
      then have "source_end u - source_end u / 2 ^ 51 \<le> c1" by linarith
      with le ih Cons show ?thesis by simp
    qed
    show ?thesis
      using ih mono starts s' us ch step(3) [OF Inr] by simp
  qed
qed

lemma chained_span:
  "chained us \<Longrightarrow>
     sum_list (map source_duration us)
       \<le> scheduled_span us + sum_list (map source_end (butlast us)) / 2 ^ 51"
proof (induction us rule: chained.induct)
  case (1 u v us)
  then have ih: "sum_list (map source_duration (v # us))
       \<le> scheduled_span (v # us) + sum_list (map source_end (butlast (v # us))) / 2 ^ 51"
    and st: "source_end u - source_end u / 2 ^ 51 \<le> source_start v"
    by simp_all
  have sp: "scheduled_span (u # v # us) = scheduled_span (v # us) + source_start v - source_start u"
    by (simp add: scheduled_span_def)
  have bl: "sum_list (map source_end (butlast (u # v # us))) =
      source_end u + sum_list (map source_end (butlast (v # us)))"
    by simp
  have du: "source_duration u = source_end u - source_start u"
    by (simp add: source_end_def)
  have "sum_list (map source_duration (u # v # us)) =
      source_duration u + sum_list (map source_duration (v # us))"
    by simp
  then show ?case
    unfolding sp bl du using ih st by (simp add: add_divide_distrib)
qed (simp_all add: scheduled_span_def source_end_def)

lemma is_binary64_1: "is_binary64 1"
proof -
  have "binary64_pos 1 = Num 1"
    by (subst binary64_pos_eval [where e = 0]) (simp_all add: scaled_def rne_def)
  then show ?thesis by (simp add: is_binary64_def binary64_def)
qed

lemma is_binary64_0: "is_binary64 0"
  by (simp add: is_binary64_def binary64_def binary64_pos_0)

lemma buffer_duration_3: "buffer_duration 3 = Num (1152921504606847 / 9223372036854775808)"
proof -
  have "binary64_pos (1 / 8000) = Num (1152921504606847 / 9223372036854775808)"
    by (subst binary64_pos_eval [where e = "- 13"]) (simp_all add: scaled_def rne_def)
  then show ?thesis
    by (simp add: buffer_duration_def AUDIO_RECEIVE_SAMPLE_RATE_def binary64_def)
qed

lemma cursor_after_first:
  "js_plus (Num 1) (buffer_duration 3) = Num (4504162577323917 / 4503599627370496)"
proof -
  have "binary64_pos (9224524958359382655 / 9223372036854775808)
      = Num (4504162577323917 / 4503599627370496)"
    by (subst binary64_pos_eval [where e = 0]) (simp_all add: scaled_def rne_def)
  then show ?thesis
    by (simp add: buffer_duration_3 binary64_def)
qed

lemma cursor_after_second:
  "js_plus (Num (4504162577323917 / 4503599627370496)) (buffer_duration 3)
     = Num (2252362763638669 / 2251799813685248)"
proof -
  have "binary64_pos (9225677879863988863 / 9223372036854775808)
      = Num (2252362763638669 / 2251799813685248)"
    by (subst binary64_pos_eval [where e = 0]) (simp_all add: scaled_def rne_def)
  then show ?thesis
    by (simp add: buffer_duration_3 binary64_def)
qed

lemma run_playback_example:
  "run_playback
     [PlayChunk 1 [0, 0, 1, 0, 0, 128], PlayChunk 1 [1, 2, 3], PlayChunk 1 [0, 0, 1, 0, 0, 128]]
     playback_init =
   (\<lparr>contexts = [\<lparr>ctx_state = Running, ctx_sampleRate = 24000,
        ctx_sources =
          [\<lparr>source_samples = [0, 1 / 32768, - 1], source_start = 1\<rparr>,
           \<lparr>source_samples = [0, 1 / 32768, - 1],
              source_start = 4504162577323917 / 4503599627370496\<rparr>]\<rparr>],
      ctxRef = Some 0,
      nextTimeRef = Num (2252362763638669 / 2251799813685248), isPlayingRef = True\<rparr>,
    [\<lparr>source_samples = [0, 1 / 32768, - 1], source_start = 1\<rparr>,
     \<lparr>source_samples = [0, 1 / 32768, - 1],
        source_start = 4504162577323917 / 4503599627370496\<rparr>])"
  by (simp add: playChunk_def getContext_def create_context_def update_context_def
      playback_init_def new_AudioContext_def resume_def AUDIO_RECEIVE_SAMPLE_RATE_def
      to_float32_def Let_def word_cat_eq cursor_after_first cursor_after_second
      numeral_3_eq_3 [symmetric])

lemma playChunk_raising_cursor:
  assumes "odd (length pcmData) \<or> pcmData = []"
  shows "(\<exists>e. snd (playChunk now pcmData s) = Inl e) \<and>
     fst (playChunk now pcmData s) = snd (getContext s) \<and>
     nextTimeRef (fst (playChunk now pcmData s)) = nextTimeRef s"
proof -
  obtain i s1 where g: "getContext s = (i, s1)" by (cases "getContext s")
  from assms have "odd (length pcmData) \<or> pcmData = [] \<or> nextTimeRef s = PosInfinity
      \<or> (\<exists>c. nextTimeRef s = Num c \<and> max now c < 0)" by blast
  from playChunk_raises [OF g this] obtain e where "playChunk now pcmData s = (s1, Inl e)" ..
  then show ?thesis
    using getContext_nextTimeRef [of s] g by simp
qed

lemma playChunk_depends_on_cursor:
  assumes "nextTimeRef s = nextTimeRef t"
  shows "snd (playChunk now pcmData s) = snd (playChunk now pcmData t) \<and>
     nextTimeRef (fst (playChunk now pcmData s)) = nextTimeRef (fst (playChunk now pcmData t))"
proof -
  obtain i s1 where g: "getContext s = (i, s1)" by (cases "getContext s")
  obtain j t1 where h: "getContext t = (j, t1)" by (cases "getContext t")
  have n: "nextTimeRef s1 = nextTimeRef t" "nextTimeRef t1 = nextTimeRef t"
    using getContext_nextTimeRef [of s] getContext_nextTimeRef [of t] g h assms by simp_all
  show ?thesis
    by (cases "Math_max (Num now) (nextTimeRef t)")
      (simp_all add: playChunk_def g h n Let_def)
qed

lemma getContext_fresh:
  assumes "ctxRef s = None"
  shows "getContext s =
     (length (contexts s),
      s\<lparr>contexts := contexts s @
           [\<lparr>ctx_state = Running, ctx_sampleRate = 24000, ctx_sources = []\<rparr>],
        ctxRef := Some (length (contexts s))\<rparr>)"
  using assms
  by (simp add: getContext_def create_context_def update_context_def new_AudioContext_def
      resume_def AUDIO_RECEIVE_SAMPLE_RATE_def Let_def)

lemma flush_fields:
  "ctxRef (flush s) = None" "nextTimeRef (flush s) = Num 0" "isPlayingRef (flush s) = False"
  "length (contexts (flush s)) = length (contexts s)"
  by (cases "ctxRef s"; simp add: flush_def)+

lemma flush_contexts:
  "contexts (flush s) =
     (case ctxRef s of
        None \<Rightarrow> contexts s
      | Some i \<Rightarrow> if i < length (contexts s) then (contexts s)[i := close (contexts s ! i)]
                  else contexts s)"
  by (cases "ctxRef s") (simp_all add: flush_def update_context_def)

lemma playChunk_after_flush:
  assumes "even (length pcmData)" and "pcmData \<noteq> []"
  shows "playChunk now pcmData (flush s) =
     (\<lparr>contexts = contexts (flush s) @
          [\<lparr>ctx_state = Running, ctx_sampleRate = 24000,
            ctx_sources = [\<lparr>source_samples = to_float32 (int16_view pcmData),
                             source_start = max now 0\<rparr>]\<rparr>],
        ctxRef = Some (length (contexts s)),
        nextTimeRef = js_plus (Num (max now 0)) (buffer_duration (length pcmData div 2)),
        isPlayingRef = True\<rparr>,
      Inr \<lparr>source_samples = to_float32 (int16_view pcmData), source_start = max now 0\<rparr>)"
proof -
  note g = getContext_fresh [OF flush_fields(1) [of s]]
  have m: "0 \<le> max now 0" by simp
  have l: "length (contexts s) = length (contexts (flush s))"
    by (simp add: flush_fields)
  show ?thesis
    by (subst playChunk_accepts [OF g assms flush_fields(2) m])
      (simp add: update_context_def nth_append l)
qed

lemma playChunk_example:
  "playChunk 1 [0, 0, 1, 0, 0, 128] playback_init =
     (\<lparr>contexts = [\<lparr>ctx_state = Running, ctx_sampleRate = 24000,
          ctx_sources = [\<lparr>source_samples = [0, 1 / 32768, - 1], source_start = 1\<rparr>]\<rparr>],
        ctxRef = Some 0,
        nextTimeRef = Num (4504162577323917 / 4503599627370496), isPlayingRef = True\<rparr>,
      Inr \<lparr>source_samples = [0, 1 / 32768, - 1], source_start = 1\<rparr>)"
  by (simp add: playChunk_def getContext_def create_context_def update_context_def
      playback_init_def new_AudioContext_def resume_def AUDIO_RECEIVE_SAMPLE_RATE_def
      to_float32_def Let_def word_cat_eq cursor_after_first numeral_3_eq_3 [symmetric])

lemma playChunk_ctxRef: "ctxRef (fst (playChunk now pcmData s)) \<noteq> None"
proof -
  obtain i s1 where g: "getContext s = (i, s1)" by (cases "getContext s")
  have c: "ctxRef s1 \<noteq> None"
    using g
    by (auto simp: getContext_def create_context_def Let_def
        split: option.splits if_splits prod.splits)
  show ?thesis
    using c
    by (cases "Math_max (Num now) (nextTimeRef s1)")
      (auto simp: playChunk_def g Let_def)
qed

lemma playChunk_start_after_clock:
  assumes "cursor_value (nextTimeRef t)" and "snd (playChunk now pcmData t) = Inr u"
  shows "now \<le> source_start u"
proof -
  have p: "playChunk now pcmData t = (fst (playChunk now pcmData t), Inr u)"
    using assms(2) by (cases "playChunk now pcmData t") simp
  from playChunk_inversion [OF p assms(1)] show ?thesis by auto
qed

lemma flush_example:
  "flush \<lparr>contexts = [\<lparr>ctx_state = Running, ctx_sampleRate = 24000,
          ctx_sources = [\<lparr>source_samples = [0, 1 / 32768, - 1], source_start = 1\<rparr>]\<rparr>],
        ctxRef = Some 0,
        nextTimeRef = Num (4504162577323917 / 4503599627370496), isPlayingRef = True\<rparr> =
   \<lparr>contexts = [\<lparr>ctx_state = Closed, ctx_sampleRate = 24000,
          ctx_sources = [\<lparr>source_samples = [0, 1 / 32768, - 1], source_start = 1\<rparr>]\<rparr>],
      ctxRef = None, nextTimeRef = Num 0, isPlayingRef = False\<rparr>"
  by (simp add: flush_def update_context_def close_def)

lemma onended_example:
  "is_binary64 (4278419646001971 / 4503599627370496) \<and>
   js_plus (Num (4278419646001971 / 4503599627370496)) (binary64 (5 / 100)) = Num 1 \<and>
   onended (4278419646001971 / 4503599627370496)
     (playback_init\<lparr>nextTimeRef := Num 1, isPlayingRef := True\<rparr>) =
     playback_init\<lparr>nextTimeRef := Num 1\<rparr>"
proof -
  have a: "binary64_pos (4278419646001971 / 4503599627370496) =
      Num (4278419646001971 / 4503599627370496)"
    by (subst binary64_pos_eval [where e = "- 1"]) (simp_all add: scaled_def rne_def)
  have b: "binary64_pos (5 / 100) = Num (3602879701896397 / 72057594037927936)"
    by (subst binary64_pos_eval [where e = "- 5"]) (simp_all add: scaled_def rne_def)
  have c: "binary64_pos (72057594037927933 / 72057594037927936) = Num 1"
    by (subst binary64_pos_eval [where e = "- 1"]) (simp_all add: scaled_def rne_def)
  have s: "js_plus (Num (4278419646001971 / 4503599627370496)) (binary64 (5 / 100)) = Num 1"
    using b c by (simp add: binary64_def)
  show ?thesis
    using a s by (simp add: is_binary64_def binary64_def onended_def playback_init_def)
qed

text \<open>
  Claim C1, as amended. Times are binary64 numbers, with a clock that is not negative.
  A chunk of an even, positive number of bytes is always scheduled, and its start time
  is exactly \<open>max(clockNow, cursor)\<close>; the cursor then becomes the rounded sum of that
  start and the rounded quotient \<open>n / 24000\<close>, which lies within a \<open>2^(-51)\<close>-th of the
  exact end of the source, on either side of it. A chunk of odd or zero length raises,
  schedules nothing and leaves the cursor alone, and so does an \<open>onended\<close> callback.
  Hence in every run of \<open>playChunk\<close> calls with no flush in between the cursor never
  decreases, every source starts no earlier than the end of the source before it less a
  \<open>2^(-51)\<close>-th of that end (two sources can overlap by that much), and the sum of the
  durations is at most the span from the first start to the last end plus a
  \<open>2^(-51)\<close>-th of the ends of all sources but the last.
\<close>

theorem playChunk_schedule:
  "(clock_reading now \<and> cursor_value (nextTimeRef s) \<longrightarrow>
      cursor_value (nextTimeRef (fst (playChunk now pcmData s))) \<and>
      js_le (nextTimeRef s) (nextTimeRef (fst (playChunk now pcmData s)))) \<and>
   (clock_reading now \<and> nextTimeRef s = Num c \<and> 0 \<le> c \<and> is_binary64 c \<and>
    even (length pcmData) \<and> pcmData \<noteq> [] \<longrightarrow>
      snd (playChunk now pcmData s) =
        Inr \<lparr>source_samples = to_float32 (int16_view pcmData), source_start = max now c\<rparr> \<and>
      nextTimeRef (fst (playChunk now pcmData s)) =
        js_plus (Num (max now c)) (buffer_duration (length pcmData div 2)) \<and>
      (\<forall>c'. nextTimeRef (fst (playChunk now pcmData s)) = Num c' \<longrightarrow>
         \<bar>c' - (max now c + real (length pcmData div 2) / 24000)\<bar>
           \<le> (max now c + real (length pcmData div 2) / 24000) / 2 ^ 51)) \<and>
   (odd (length other) \<or> other = [] \<longrightarrow>
      (\<exists>e. snd (playChunk now other s) = Inl e) \<and>
      nextTimeRef (fst (playChunk now other s)) = nextTimeRef s) \<and>
   nextTimeRef (onended now s) = nextTimeRef s \<and>
   (cursor_value (nextTimeRef s) \<and> list_all call_clock cs \<longrightarrow>
      cursor_value (nextTimeRef (fst (run_playback cs s))) \<and>
      js_le (nextTimeRef s) (nextTimeRef (fst (run_playback cs s))) \<and>
      chained (snd (run_playback cs s)) \<and>
      sum_list (map source_duration (snd (run_playback cs s)))
        \<le> scheduled_span (snd (run_playback cs s))
          + sum_list (map source_end (butlast (snd (run_playback cs s)))) / 2 ^ 51)"
proof (intro conjI impI)
  assume h: "clock_reading now \<and> cursor_value (nextTimeRef s)"
  obtain s2 r where p: "playChunk now pcmData s = (s2, r)"
    by (cases "playChunk now pcmData s")
  from h playChunk_step(1,2) [OF _ _ p]
  show "cursor_value (nextTimeRef (fst (playChunk now pcmData s)))"
    and "js_le (nextTimeRef s) (nextTimeRef (fst (playChunk now pcmData s)))"
    by (simp_all add: p)
next
  assume h: "clock_reading now \<and> nextTimeRef s = Num c \<and> 0 \<le> c \<and> is_binary64 c \<and>
    even (length pcmData) \<and> pcmData \<noteq> []"
  obtain i s1 where g: "getContext s = (i, s1)" by (cases "getContext s")
  have m: "0 \<le> max now c" using h by (simp add: max_def)
  note sch = playChunk_accepts [OF g _ _ _ m, of pcmData]
  have cv: "cursor_value (nextTimeRef s)" using h by (simp add: cursor_value_def)
  show r: "snd (playChunk now pcmData s) =
      Inr \<lparr>source_samples = to_float32 (int16_view pcmData), source_start = max now c\<rparr>"
    using sch h by simp
  show "nextTimeRef (fst (playChunk now pcmData s)) =
      js_plus (Num (max now c)) (buffer_duration (length pcmData div 2))"
    using sch h by simp
  show "\<forall>c'. nextTimeRef (fst (playChunk now pcmData s)) = Num c' \<longrightarrow>
      \<bar>c' - (max now c + real (length pcmData div 2) / 24000)\<bar>
        \<le> (max now c + real (length pcmData div 2) / 24000) / 2 ^ 51"
  proof (intro allI impI)
    fix c' assume c': "nextTimeRef (fst (playChunk now pcmData s)) = Num c'"
    have p: "playChunk now pcmData s =
        (fst (playChunk now pcmData s),
         Inr \<lparr>source_samples = to_float32 (int16_view pcmData), source_start = max now c\<rparr>)"
      using r by (cases "playChunk now pcmData s") simp
    have "\<bar>c' - source_end \<lparr>source_samples = to_float32 (int16_view pcmData),
          source_start = max now c\<rparr>\<bar>
        \<le> source_end \<lparr>source_samples = to_float32 (int16_view pcmData),
          source_start = max now c\<rparr> / 2 ^ 51"
      using playChunk_step(5) [OF _ cv p refl c'] h by simp
    then show "\<bar>c' - (max now c + real (length pcmData div 2) / 24000)\<bar>
        \<le> (max now c + real (length pcmData div 2) / 24000) / 2 ^ 51"
      by (simp add: source_end_def source_duration_def length_float32
          AUDIO_RECEIVE_SAMPLE_RATE_def)
  qed
next
  assume h: "odd (length other) \<or> other = []"
  from playChunk_raising_cursor [OF h, of now s]
  show "\<exists>e. snd (playChunk now other s) = Inl e"
    and "nextTimeRef (fst (playChunk now other s)) = nextTimeRef s"
    by blast+
next
  show "nextTimeRef (onended now s) = nextTimeRef s"
    by (rule onended_nextTimeRef)
next
  assume h: "cursor_value (nextTimeRef s) \<and> list_all call_clock cs"
  obtain s' us where r: "run_playback cs s = (s', us)"
    by (cases "run_playback cs s")
  from h have a: "cursor_value (nextTimeRef s)" and b: "list_all call_clock cs" by simp_all
  note inv = run_playback_invariant [OF a b r]
  from inv show "cursor_value (nextTimeRef (fst (run_playback cs s)))"
    and "js_le (nextTimeRef s) (nextTimeRef (fst (run_playback cs s)))"
    and "chained (snd (run_playback cs s))"
    by (simp_all add: r)
  from inv have "chained us" by simp
  from chained_span [OF this]
  show "sum_list (map source_duration (snd (run_playback cs s)))
        \<le> scheduled_span (snd (run_playback cs s))
          + sum_list (map source_end (butlast (snd (run_playback cs s)))) / 2 ^ 51"
    by (simp add: r)
qed

theorem playChunk_schedule_witness:
  "clock_reading 1 \<and> nextTimeRef playback_init = Num 0 \<and> is_binary64 0 \<and>
   cursor_value (nextTimeRef playback_init) \<and>
   even (length [0, 0, 1, 0, 0, 128 :: 8 word]) \<and> odd (length [1, 2, 3 :: 8 word]) \<and>
   list_all call_clock
     [PlayChunk 1 [0, 0, 1, 0, 0, 128], PlayChunk 1 [1, 2, 3], PlayChunk 1 [0, 0, 1, 0, 0, 128]] \<and>
   snd (playChunk 1 [0, 0, 1, 0, 0, 128] playback_init) =
     Inr \<lparr>source_samples = [0, 1 / 32768, - 1], source_start = 1\<rparr> \<and>
   nextTimeRef (fst (playChunk 1 [0, 0, 1, 0, 0, 128] playback_init)) =
     Num (4504162577323917 / 4503599627370496) \<and>
   \<bar>4504162577323917 / 4503599627370496 - (1 + 3 / 24000)\<bar> \<le> (1 + 3 / 24000 :: real) / 2 ^ 51 \<and>
   nextTimeRef (fst (playChunk 1 [1, 2, 3] playback_init)) = Num 0 \<and>
   snd (run_playback
     [PlayChunk 1 [0, 0, 1, 0, 0, 128], PlayChunk 1 [1, 2, 3], PlayChunk 1 [0, 0, 1, 0, 0, 128]]
     playback_init) =
     [\<lparr>source_samples = [0, 1 / 32768, - 1], source_start = 1\<rparr>,
      \<lparr>source_samples = [0, 1 / 32768, - 1],
         source_start = 4504162577323917 / 4503599627370496\<rparr>] \<and>
   chained (snd (run_playback
     [PlayChunk 1 [0, 0, 1, 0, 0, 128], PlayChunk 1 [1, 2, 3], PlayChunk 1 [0, 0, 1, 0, 0, 128]]
     playback_init))"
proof -
  have clk: "clock_reading 1"
    by (simp add: clock_reading_def is_binary64_1)
  have cur: "nextTimeRef playback_init = Num 0" "cursor_value (nextTimeRef playback_init)"
    by (simp_all add: playback_init_def cursor_value_def is_binary64_0)
  have calls: "list_all call_clock
     [PlayChunk 1 [0, 0, 1, 0, 0, 128], PlayChunk 1 [1, 2, 3], PlayChunk 1 [0, 0, 1, 0, 0, 128]]"
    using clk by simp
  have pcm: "even (length [0, 0, 1, 0, 0, 128 :: 8 word])" "[0, 0, 1, 0, 0, 128 :: 8 word] \<noteq> []"
    "odd (length [1, 2, 3 :: 8 word])"
    by simp_all
  note th = playChunk_schedule [where now = 1 and s = playback_init and c = 0
      and pcmData = "[0, 0, 1, 0, 0, 128]" and other = "[1, 2, 3]" and cs =
      "[PlayChunk 1 [0, 0, 1, 0, 0, 128], PlayChunk 1 [1, 2, 3], PlayChunk 1 [0, 0, 1, 0, 0, 128]]"]
  have bound: "\<bar>4504162577323917 / 4503599627370496 - (1 + 3 / 24000)\<bar>
      \<le> (1 + 3 / 24000 :: real) / 2 ^ 51"
    using th clk cur pcm is_binary64_0 unfolding playChunk_example by simp
  have raised: "nextTimeRef (fst (playChunk 1 [1, 2, 3] playback_init)) = Num 0"
    using th pcm cur by simp
  have ch: "chained (snd (run_playback
     [PlayChunk 1 [0, 0, 1, 0, 0, 128], PlayChunk 1 [1, 2, 3], PlayChunk 1 [0, 0, 1, 0, 0, 128]]
     playback_init))"
    using th cur calls by blast
  show ?thesis
    using clk cur calls is_binary64_0 bound raised ch
    by (simp add: playChunk_example run_playback_example del: run_playback.simps)
qed

theorem playChunk_rounding_counterexample:
  "nextTimeRef (fst (playChunk 1 [0, 0, 1, 0, 0, 128] playback_init)) =
     Num (4504162577323917 / 4503599627370496) \<and>
   source_end \<lparr>source_samples = [0, 1 / 32768, - 1], source_start = 1\<rparr> = 8001 / 8000 \<and>
   (4504162577323917 / 4503599627370496 :: real) < 8001 / 8000 \<and>
   buffer_duration 3 = Num (1152921504606847 / 9223372036854775808) \<and>
   (4504162577323917 / 4503599627370496 - 1 :: real) < 1152921504606847 / 9223372036854775808 \<and>
   \<not> no_overlap (snd (run_playback
     [PlayChunk 1 [0, 0, 1, 0, 0, 128], PlayChunk 1 [1, 2, 3], PlayChunk 1 [0, 0, 1, 0, 0, 128]]
     playback_init)) \<and>
   scheduled_span (snd (run_playback
     [PlayChunk 1 [0, 0, 1, 0, 0, 128], PlayChunk 1 [1, 2, 3], PlayChunk 1 [0, 0, 1, 0, 0, 128]]
     playback_init))
     < sum_list (map source_duration (snd (run_playback
     [PlayChunk 1 [0, 0, 1, 0, 0, 128], PlayChunk 1 [1, 2, 3], PlayChunk 1 [0, 0, 1, 0, 0, 128]]
     playback_init)))"
  unfolding run_playback_example playChunk_example buffer_duration_3
  by (simp add: source_end_def source_duration_def scheduled_span_def
      AUDIO_RECEIVE_SAMPLE_RATE_def)

text \<open>
  Claim C2. \<open>flush\<close> closes the context that \<open>ctxRef\<close> names, which stays closed in the
  store, drops the reference and sets the cursor to zero. On the state a flush leaves, a
  \<open>playChunk\<close> of an even, positive number of bytes creates a new context, running and
  holding only the new source, makes \<open>ctxRef\<close> name it, and starts the source at
  \<open>max(clockNow, 0)\<close>, hence no earlier than the clock reading of the call; a
  \<open>playChunk\<close> that raises has still acquired the new context. What is scheduled and the
  cursor afterwards are the same for any two states before the flush. In any state at
  all, \<open>playChunk\<close> leaves a context in place, and a source it schedules starts no
  earlier than the clock reading of the call.
\<close>

theorem flush_then_playChunk:
  "ctxRef (flush s) = None \<and> nextTimeRef (flush s) = Num 0 \<and>
   (ctxRef s = Some i \<and> i < length (contexts s) \<longrightarrow>
      contexts (flush s) = (contexts s)[i := close (contexts s ! i)] \<and>
      ctx_state (contexts (flush s) ! i) = Closed) \<and>
   (even (length pcmData) \<and> pcmData \<noteq> [] \<longrightarrow>
      playChunk now pcmData (flush s) =
        (\<lparr>contexts = contexts (flush s) @
             [\<lparr>ctx_state = Running, ctx_sampleRate = 24000,
               ctx_sources = [\<lparr>source_samples = to_float32 (int16_view pcmData),
                                source_start = max now 0\<rparr>]\<rparr>],
           ctxRef = Some (length (contexts s)),
           nextTimeRef = js_plus (Num (max now 0)) (buffer_duration (length pcmData div 2)),
           isPlayingRef = True\<rparr>,
         Inr \<lparr>source_samples = to_float32 (int16_view pcmData), source_start = max now 0\<rparr>) \<and>
      now \<le> max now 0) \<and>
   (odd (length other) \<or> other = [] \<longrightarrow>
      (\<exists>e. snd (playChunk now other (flush s)) = Inl e) \<and>
      fst (playChunk now other (flush s)) =
        (flush s)\<lparr>contexts := contexts (flush s) @
             [\<lparr>ctx_state = Running, ctx_sampleRate = 24000, ctx_sources = []\<rparr>],
           ctxRef := Some (length (contexts s))\<rparr>) \<and>
   snd (playChunk now pcmData (flush s)) = snd (playChunk now pcmData (flush s0)) \<and>
   nextTimeRef (fst (playChunk now pcmData (flush s))) =
     nextTimeRef (fst (playChunk now pcmData (flush s0))) \<and>
   ctxRef (fst (playChunk now pcmData t)) \<noteq> None \<and>
   (cursor_value (nextTimeRef t) \<and> snd (playChunk now pcmData t) = Inr u \<longrightarrow>
      now \<le> source_start u)"
proof (intro conjI impI)
  show "ctxRef (flush s) = None" and "nextTimeRef (flush s) = Num 0"
    by (rule flush_fields)+
next
  assume h: "ctxRef s = Some i \<and> i < length (contexts s)"
  then show c: "contexts (flush s) = (contexts s)[i := close (contexts s ! i)]"
    by (simp add: flush_contexts)
  show "ctx_state (contexts (flush s) ! i) = Closed"
    using h by (simp add: c close_def)
next
  assume h: "even (length pcmData) \<and> pcmData \<noteq> []"
  then show "playChunk now pcmData (flush s) =
        (\<lparr>contexts = contexts (flush s) @
             [\<lparr>ctx_state = Running, ctx_sampleRate = 24000,
               ctx_sources = [\<lparr>source_samples = to_float32 (int16_view pcmData),
                                source_start = max now 0\<rparr>]\<rparr>],
           ctxRef = Some (length (contexts s)),
           nextTimeRef = js_plus (Num (max now 0)) (buffer_duration (length pcmData div 2)),
           isPlayingRef = True\<rparr>,
         Inr \<lparr>source_samples = to_float32 (int16_view pcmData), source_start = max now 0\<rparr>)"
    by (simp add: playChunk_after_flush)
  show "now \<le> max now 0" by simp
next
  assume h: "odd (length other) \<or> other = []"
  note r = playChunk_raising_cursor [OF h, of now "flush s"]
  from r show "\<exists>e. snd (playChunk now other (flush s)) = Inl e" by blast
  from r have "fst (playChunk now other (flush s)) = snd (getContext (flush s))" by blast
  then show "fst (playChunk now other (flush s)) =
        (flush s)\<lparr>contexts := contexts (flush s) @
             [\<lparr>ctx_state = Running, ctx_sampleRate = 24000, ctx_sources = []\<rparr>],
           ctxRef := Some (length (contexts s))\<rparr>"
    by (simp add: getContext_fresh [OF flush_fields(1)] flush_fields)
next
  have "nextTimeRef (flush s) = nextTimeRef (flush s0)" by (simp add: flush_fields)
  from playChunk_depends_on_cursor [OF this]
  show "snd (playChunk now pcmData (flush s)) = snd (playChunk now pcmData (flush s0))"
    and "nextTimeRef (fst (playChunk now pcmData (flush s))) =
     nextTimeRef (fst (playChunk now pcmData (flush s0)))"
    by blast+
next
  show "ctxRef (fst (playChunk now pcmData t)) \<noteq> None"
    by (rule playChunk_ctxRef)
next
  assume "cursor_value (nextTimeRef t) \<and> snd (playChunk now pcmData t) = Inr u"
  then show "now \<le> source_start u"
    using playChunk_start_after_clock [of t now pcmData u] by simp
qed

theorem flush_then_playChunk_witness:
  "ctxRef (fst (playChunk 1 [0, 0, 1, 0, 0, 128] playback_init)) = Some 0 \<and>
   0 < length (contexts (fst (playChunk 1 [0, 0, 1, 0, 0, 128] playback_init))) \<and>
   even (length [0, 0, 1, 0, 0, 128 :: 8 word]) \<and> odd (length [1, 2, 3 :: 8 word]) \<and>
   flush (fst (playChunk 1 [0, 0, 1, 0, 0, 128] playback_init)) =
     \<lparr>contexts = [\<lparr>ctx_state = Closed, ctx_sampleRate = 24000,
          ctx_sources = [\<lparr>source_samples = [0, 1 / 32768, - 1], source_start = 1\<rparr>]\<rparr>],
      ctxRef = None, nextTimeRef = Num 0, isPlayingRef = False\<rparr> \<and>
   playChunk 1 [0, 0, 1, 0, 0, 128] (flush (fst (playChunk 1 [0, 0, 1, 0, 0, 128] playback_init))) =
     (\<lparr>contexts = [\<lparr>ctx_state = Closed, ctx_sampleRate = 24000,
          ctx_sources = [\<lparr>source_samples = [0, 1 / 32768, - 1], source_start = 1\<rparr>]\<rparr>,
        \<lparr>ctx_state = Running, ctx_sampleRate = 24000,
          ctx_sources = [\<lparr>source_samples = [0, 1 / 32768, - 1], source_start = 1\<rparr>]\<rparr>],
      ctxRef = Some 1,
      nextTimeRef = Num (4504162577323917 / 4503599627370496), isPlayingRef = True\<rparr>,
      Inr \<lparr>source_samples = [0, 1 / 32768, - 1], source_start = 1\<rparr>) \<and>
   ctxRef (fst (playChunk 1 [1, 2, 3]
     (flush (fst (playChunk 1 [0, 0, 1, 0, 0, 128] playback_init))))) = Some 1 \<and>
   ctx_state (contexts (flush (fst (playChunk 1 [0, 0, 1, 0, 0, 128] playback_init))) ! 0) =
     Closed \<and>
   cursor_value (nextTimeRef playback_init) \<and>
   snd (playChunk 1 [0, 0, 1, 0, 0, 128] playback_init) =
     Inr \<lparr>source_samples = [0, 1 / 32768, - 1], source_start = 1\<rparr> \<and>
   (1 :: real) \<le> source_start \<lparr>source_samples = [0, 1 / 32768, - 1], source_start = 1\<rparr>"
proof -
  note th = flush_then_playChunk [where s = "fst (playChunk 1 [0, 0, 1, 0, 0, 128] playback_init)"
      and i = 0 and now = 1 and pcmData = "[0, 0, 1, 0, 0, 128]" and other = "[1, 2, 3]"
      and ?s0.0 = playback_init and t = playback_init
      and u = "\<lparr>source_samples = [0, 1 / 32768, - 1], source_start = 1\<rparr>"]
  have ref: "ctxRef (fst (playChunk 1 [0, 0, 1, 0, 0, 128] playback_init)) = Some 0 \<and>
      0 < length (contexts (fst (playChunk 1 [0, 0, 1, 0, 0, 128] playback_init)))"
    by (simp add: playChunk_example)
  note closed = th [THEN conjunct2, THEN conjunct2, THEN conjunct1, THEN mp, OF ref,
      THEN conjunct2]
  have cur: "cursor_value (nextTimeRef playback_init)"
    by (simp add: playback_init_def cursor_value_def is_binary64_0)
  have first: "snd (playChunk 1 [0, 0, 1, 0, 0, 128] playback_init) =
     Inr \<lparr>source_samples = [0, 1 / 32768, - 1], source_start = 1\<rparr>"
    by (simp add: playChunk_example)
  note after = th [THEN conjunct2, THEN conjunct2, THEN conjunct2, THEN conjunct2,
      THEN conjunct2, THEN conjunct2, THEN conjunct2, THEN conjunct2, THEN mp,
      OF conjI [OF cur first]]
  have pcm: "even (length [0, 0, 1, 0, 0, 128 :: 8 word])" "[0, 0, 1, 0, 0, 128 :: 8 word] \<noteq> []"
    "odd (length [1, 2, 3 :: 8 word])"
    by simp_all
  have fl: "flush (fst (playChunk 1 [0, 0, 1, 0, 0, 128] playback_init)) =
     \<lparr>contexts = [\<lparr>ctx_state = Closed, ctx_sampleRate = 24000,
          ctx_sources = [\<lparr>source_samples = [0, 1 / 32768, - 1], source_start = 1\<rparr>]\<rparr>],
      ctxRef = None, nextTimeRef = Num 0, isPlayingRef = False\<rparr>"
    by (simp add: playChunk_example flush_example)
  note sched = th [THEN conjunct2, THEN conjunct2, THEN conjunct2, THEN conjunct1, THEN mp,
      OF conjI [OF pcm(1) pcm(2)], THEN conjunct1]
  have again: "playChunk 1 [0, 0, 1, 0, 0, 128]
      (flush (fst (playChunk 1 [0, 0, 1, 0, 0, 128] playback_init))) =
     (\<lparr>contexts = [\<lparr>ctx_state = Closed, ctx_sampleRate = 24000,
          ctx_sources = [\<lparr>source_samples = [0, 1 / 32768, - 1], source_start = 1\<rparr>]\<rparr>,
        \<lparr>ctx_state = Running, ctx_sampleRate = 24000,
          ctx_sources = [\<lparr>source_samples = [0, 1 / 32768, - 1], source_start = 1\<rparr>]\<rparr>],
      ctxRef = Some 1,
      nextTimeRef = Num (4504162577323917 / 4503599627370496), isPlayingRef = True\<rparr>,
      Inr \<lparr>source_samples = [0, 1 / 32768, - 1], source_start = 1\<rparr>)"
    using sched
    by (simp add: playChunk_example flush_example to_float32_def word_cat_eq
        cursor_after_first numeral_3_eq_3 [symmetric])
  note raise = th [THEN conjunct2, THEN conjunct2, THEN conjunct2, THEN conjunct2,
      THEN conjunct1, THEN mp, OF disjI1 [OF pcm(3)], THEN conjunct2]
  have reacq: "ctxRef (fst (playChunk 1 [1, 2, 3]
     (flush (fst (playChunk 1 [0, 0, 1, 0, 0, 128] playback_init))))) = Some 1"
    using raise by (simp add: playChunk_example flush_example)
  show ?thesis
    using fl again reacq closed cur first after ref pcm by blast
qed

section \<open>Properties of the Capture Pipeline\<close>

lemma length_int16_buffer: "length (int16_buffer ws) = 2 * length ws"
  by (induction ws) simp_all

lemma word_cat_bytes: "word_cat (ucast (drop_bit 8 w) :: 8 word) (ucast w :: 8 word) = (w :: 16 word)"
  by (rule bit_word_eqI) (auto simp: bit_word_cat_iff bit_ucast_iff bit_drop_bit_eq)

lemma int16_view_buffer: "int16_view (int16_buffer ws) = ws"
  by (induction ws) (simp_all add: word_cat_bytes)

lemma js_trunc_range:
  assumes "- 32768 \<le> v" and "v \<le> 32767"
  shows "- 32768 \<le> js_trunc v \<and> js_trunc v \<le> 32767"
proof (cases "v < 0")
  case True
  have "\<lceil>v\<rceil> \<le> 0" using True by (simp add: ceiling_le_iff)
  moreover have "- 32768 \<le> \<lceil>v\<rceil>" using assms(1) by (simp add: le_ceiling_iff)
  ultimately show ?thesis using True by (simp add: js_trunc_def)
next
  case False
  have "0 \<le> \<lfloor>v\<rfloor>" using False by simp
  moreover have "\<lfloor>v\<rfloor> \<le> 32767" using assms(2) by (simp add: floor_le_iff)
  ultimately show ?thesis using False by (simp add: js_trunc_def)
qed

lemma sint_ToInt16:
  assumes "- 32768 \<le> v" and "v \<le> 32767"
  shows "sint (ToInt16 (Num v)) = js_trunc v"
proof -
  have "- 32768 \<le> js_trunc v" and "js_trunc v < 32768"
    using js_trunc_range [OF assms] by simp_all
  then show ?thesis
    by (simp add: signed_of_int signed_take_bit_int_eq_self)
qed

lemma convert_sample_Num:
  "sint (convert_sample (Num x)) =
     js_trunc (max (- 1) (min 1 x) * (if x < 0 then 32768 else 32767))"
proof (cases "x < 0")
  case True
  then have "convert_sample (Num x) = ToInt16 (Num (max (- 1) x * 32768))"
    by (simp add: convert_sample_def Let_def min_def max_def)
  moreover have "- 32768 \<le> max (- 1) x * 32768" "max (- 1) x * 32768 \<le> 32767"
    using True by (simp_all add: max_def)
  ultimately show ?thesis
    using True sint_ToInt16 [of "max (- 1) x * 32768"] by (simp add: min_def)
next
  case False
  then have "convert_sample (Num x) = ToInt16 (Num (min 1 x * 32767))"
    by (simp add: convert_sample_def Let_def min_def max_def)
  moreover have "- 32768 \<le> min 1 x * 32767" "min 1 x * 32767 \<le> 32767"
    using False by (simp_all add: min_def)
  ultimately show ?thesis
    using False sint_ToInt16 [of "min 1 x * 32767"] by (simp add: max_def min_def)
qed

text \<open>
  Claim C3, as amended. Every block of \<open>N\<close> samples yields exactly one call of the sink,
  with a buffer of \<open>2N\<close> bytes that holds the converted samples in order, little-endian.
  A finite sample \<open>x\<close> becomes \<open>clamp(x, -1, 1) * (x < 0 ? 32768 : 32767)\<close> truncated
  towards zero (not rounded); NaN becomes 0. The boundary values are exact:
  \<open>-1\<close> gives \<open>-32768\<close>, \<open>1\<close> gives \<open>32767\<close>, \<open>0\<close> gives \<open>0\<close>.
\<close>

theorem onaudioprocess_pcm16:
  "map length (onaudioprocess float32) = [2 * length float32] \<and>
   map int16_view (onaudioprocess float32) = [map convert_sample float32] \<and>
   sint (convert_sample (Num x)) =
     js_trunc (max (- 1) (min 1 x) * (if x < 0 then 32768 else 32767)) \<and>
   convert_sample NaN = 0 \<and>
   sint (convert_sample (Num (- 1))) = - 32768 \<and>
   sint (convert_sample (Num 1)) = 32767 \<and>
   sint (convert_sample (Num 0)) = 0"
proof (intro conjI)
  show "map length (onaudioprocess float32) = [2 * length float32]"
    by (simp add: onaudioprocess_def length_int16_buffer)
  show "map int16_view (onaudioprocess float32) = [map convert_sample float32]"
    by (simp add: onaudioprocess_def int16_view_buffer)
  show "sint (convert_sample (Num x)) =
     js_trunc (max (- 1) (min 1 x) * (if x < 0 then 32768 else 32767))"
    by (rule convert_sample_Num)
  show "convert_sample NaN = 0"
    by (simp add: convert_sample_def)
  show "sint (convert_sample (Num (- 1))) = - 32768"
    by (simp add: convert_sample_def js_trunc_def)
  show "sint (convert_sample (Num 1)) = 32767"
    by (simp add: convert_sample_def js_trunc_def)
  show "sint (convert_sample (Num 0)) = 0"
    by (simp add: convert_sample_def js_trunc_def)
qed

theorem onaudioprocess_pcm16_witness:
  "onaudioprocess [Num (- 1), Num (1 / 4), Num 3, NaN] = [[0, 128, 255, 31, 255, 127, 0, 0]] \<and>
   map length (onaudioprocess [Num (- 1), Num (1 / 4), Num 3, NaN]) = [8] \<and>
   sint (convert_sample (Num (1 / 4))) = 8191"
proof -
  note th = onaudioprocess_pcm16 [where ?float32.0 = "[Num (- 1), Num (1 / 4), Num 3, NaN]"
      and x = "1 / 4"]
  have "onaudioprocess [Num (- 1), Num (1 / 4), Num 3, NaN] = [[0, 128, 255, 31, 255, 127, 0, 0]]"
    by (simp add: onaudioprocess_def convert_sample_def js_trunc_def)
  moreover have "js_trunc (max (- 1) (min 1 (1 / 4)) * (if (1 / 4 :: real) < 0 then 32768 else 32767))
      = 8191"
    by (simp add: js_trunc_def)
  ultimately show ?thesis using th by simp
qed

theorem convert_sample_round_counterexample:
  "sint (convert_sample (Num (1 / 4))) = 8191 \<and> spec_pcm16 (1 / 4) = 8192 \<and>
   sint (convert_sample (Num (1 / 4))) \<noteq> spec_pcm16 (1 / 4)"
  by (simp add: convert_sample_def js_trunc_def spec_pcm16_def round_def)

section \<open>Properties of the Session Controller\<close>

lemma trim_Nil: "trim [] = []"
  by (simp add: trim_def)

lemma handleMessage_transcript:
  "handleMessage (msg\<lparr>msg_type := ''transcript''\<rparr>) s =
     s\<lparr>assistantBufferRef := assistantBufferRef s @ or_default (msg_text msg) []\<rparr>"
  by (simp add: handleMessage_def)

lemma handleMessage_input_transcript:
  "handleMessage (msg\<lparr>msg_type := ''input_transcript''\<rparr>) s =
     (case msg_text msg of
        None \<Rightarrow> s
      | Some t \<Rightarrow> if trim t = [] then s else addEntry User t s)"
  by (auto simp: handleMessage_def trim_Nil split: option.splits)

lemma handleMessage_turn_complete:
  "handleMessage (msg\<lparr>msg_type := ''turn_complete''\<rparr>) s =
     (if assistantBufferRef s = [] then s
      else s\<lparr>transcript := transcript s @
                 [\<lparr>entry_role = Assistant, entry_text = assistantBufferRef s\<rparr>],
             assistantBufferRef := []\<rparr>)"
  by (simp add: handleMessage_def addEntry_def)

lemma handleMessage_interrupted:
  "handleMessage (msg\<lparr>msg_type := ''interrupted''\<rparr>) s =
     (if assistantBufferRef s = [] then s\<lparr>audio := flush (audio s)\<rparr>
      else s\<lparr>audio := flush (audio s),
             transcript := transcript s @
                 [\<lparr>entry_role = Assistant,
                   entry_text = assistantBufferRef s @ '' [interrupted]''\<rparr>],
             assistantBufferRef := []\<rparr>)"
  by (simp add: handleMessage_def addEntry_def flushAudio_def Let_def)

lemma handleMessage_session_ready:
  "handleMessage (msg\<lparr>msg_type := ''session_ready''\<rparr>) s =
     s\<lparr>agentName := or_default (msg_agent msg) ''general'',
       transcript := transcript s @
         [\<lparr>entry_role = System,
           entry_text = ''Connected to '' @ or_default (msg_agent msg) ''general'' @ '' agent.''\<rparr>]\<rparr>"
  by (simp add: handleMessage_def addEntry_def)

lemma fold_transcripts:
  "fold handleMessage (map (\<lambda>m. m\<lparr>msg_type := ''transcript''\<rparr>) ms) s =
     s\<lparr>assistantBufferRef :=
         assistantBufferRef s @ concat (map (\<lambda>m. or_default (msg_text m) []) ms)\<rparr>"
proof (induction ms arbitrary: s)
  case Nil
  show ?case by simp
next
  case (Cons m ms)
  show ?case
    by (simp add: Cons.IH handleMessage_transcript)
qed

text \<open>
  Claim C4, as amended. A \<open>transcript\<close> message appends its text to the assistant
  accumulator and emits nothing. An \<open>input_transcript\<close> message never touches the
  accumulator: when its text is not blank it is emitted at once as one user entry,
  otherwise nothing happens. \<open>turn_complete\<close> on a non-empty accumulator emits
  exactly one assistant entry holding the whole accumulated text and clears the
  accumulator, so a run of \<open>transcript\<close> messages followed by \<open>turn_complete\<close> emits the
  concatenation of their texts as one entry.
\<close>

theorem transcript_accumulation:
  "handleMessage (msg\<lparr>msg_type := ''transcript''\<rparr>) s =
     s\<lparr>assistantBufferRef := assistantBufferRef s @ or_default (msg_text msg) []\<rparr> \<and>
   handleMessage (msg\<lparr>msg_type := ''input_transcript''\<rparr>) s =
     (case msg_text msg of
        None \<Rightarrow> s
      | Some t \<Rightarrow> if trim t = [] then s else addEntry User t s) \<and>
   handleMessage (msg\<lparr>msg_type := ''turn_complete''\<rparr>) s =
     (if assistantBufferRef s = [] then s
      else s\<lparr>transcript := transcript s @
                 [\<lparr>entry_role = Assistant, entry_text = assistantBufferRef s\<rparr>],
             assistantBufferRef := []\<rparr>) \<and>
   fold handleMessage
     (map (\<lambda>m. m\<lparr>msg_type := ''transcript''\<rparr>) ms @ [msg\<lparr>msg_type := ''turn_complete''\<rparr>]) s =
     (if assistantBufferRef s @ concat (map (\<lambda>m. or_default (msg_text m) []) ms) = [] then s
      else s\<lparr>transcript := transcript s @
                 [\<lparr>entry_role = Assistant,
                   entry_text = assistantBufferRef s @
                     concat (map (\<lambda>m. or_default (msg_text m) []) ms)\<rparr>],
             assistantBufferRef := []\<rparr>)"
proof (intro conjI)
  show "handleMessage (msg\<lparr>msg_type := ''transcript''\<rparr>) s =
     s\<lparr>assistantBufferRef := assistantBufferRef s @ or_default (msg_text msg) []\<rparr>"
    by (rule handleMessage_transcript)
  show "handleMessage (msg\<lparr>msg_type := ''input_transcript''\<rparr>) s =
     (case msg_text msg of
        None \<Rightarrow> s
      | Some t \<Rightarrow> if trim t = [] then s else addEntry User t s)"
    by (rule handleMessage_input_transcript)
  show "handleMessage (msg\<lparr>msg_type := ''turn_complete''\<rparr>) s =
     (if assistantBufferRef s = [] then s
      else s\<lparr>transcript := transcript s @
                 [\<lparr>entry_role = Assistant, entry_text = assistantBufferRef s\<rparr>],
             assistantBufferRef := []\<rparr>)"
    by (rule handleMessage_turn_complete)
  show "fold handleMessage
     (map (\<lambda>m. m\<lparr>msg_type := ''transcript''\<rparr>) ms @ [msg\<lparr>msg_type := ''turn_complete''\<rparr>]) s =
     (if assistantBufferRef s @ concat (map (\<lambda>m. or_default (msg_text m) []) ms) = [] then s
      else s\<lparr>transcript := transcript s @
                 [\<lparr>entry_role = Assistant,
                   entry_text = assistantBufferRef s @
                     concat (map (\<lambda>m. or_default (msg_text m) []) ms)\<rparr>],
             assistantBufferRef := []\<rparr>)"
    by (simp add: fold_transcripts handleMessage_turn_complete)
qed

theorem transcript_accumulation_witness:
  "fold handleMessage
     [control ''transcript'' (Some ''Hel''), control ''transcript'' (Some ''lo''),
      control ''turn_complete'' None] panel_init =
   panel_init\<lparr>transcript := [\<lparr>entry_role = Assistant, entry_text = ''Hello''\<rparr>]\<rparr>"
proof -
  note th = transcript_accumulation [where s = panel_init
      and ms = "[control ''transcript'' (Some ''Hel''), control ''transcript'' (Some ''lo'')]"
      and msg = "control ''turn_complete'' None",
      THEN conjunct2, THEN conjunct2, THEN conjunct2]
  have "panel_init\<lparr>transcript := transcript panel_init @
          [\<lparr>entry_role = Assistant, entry_text = ''Hello''\<rparr>], assistantBufferRef := []\<rparr>
      = panel_init\<lparr>transcript := [\<lparr>entry_role = Assistant, entry_text = ''Hello''\<rparr>]\<rparr>"
    by (simp add: panel_init_def)
  with th show ?thesis
    by (simp add: control_def or_default_def panel_init_def)
qed

theorem input_transcript_counterexample:
  "transcript (handleMessage (control ''input_transcript'' (Some ''hi'')) panel_init) =
     [\<lparr>entry_role = User, entry_text = ''hi''\<rparr>] \<and>
   assistantBufferRef (handleMessage (control ''input_transcript'' (Some ''hi'')) panel_init) = []"
  by (simp add: handleMessage_def control_def panel_init_def addEntry_def trim_def
      js_whitespace_def)

text \<open>
  Claim C5, as amended. Every \<open>interrupted\<close> message flushes the Playback Scheduler.
  When it arrives while the assistant accumulator is not empty, it also emits exactly one
  assistant entry made of the accumulated text followed by \<open>" [interrupted]"\<close> and
  clears the accumulator; nothing else changes.
\<close>

theorem interrupted_flushes_and_marks:
  "audio (handleMessage (msg\<lparr>msg_type := ''interrupted''\<rparr>) s) = flush (audio s) \<and>
   (assistantBufferRef s \<noteq> [] \<longrightarrow>
      handleMessage (msg\<lparr>msg_type := ''interrupted''\<rparr>) s =
        s\<lparr>audio := flush (audio s),
          transcript := transcript s @
            [\<lparr>entry_role = Assistant,
              entry_text = assistantBufferRef s @ '' [interrupted]''\<rparr>],
          assistantBufferRef := []\<rparr>)"
  by (simp add: handleMessage_interrupted)

theorem interrupted_flushes_and_marks_witness:
  "assistantBufferRef (panel_init\<lparr>assistantBufferRef := ''Hel''\<rparr>) \<noteq> [] \<and>
   handleMessage (control ''interrupted'' None) (panel_init\<lparr>assistantBufferRef := ''Hel''\<rparr>) =
     panel_init\<lparr>transcript := [\<lparr>entry_role = Assistant, entry_text = ''Hel [interrupted]''\<rparr>]\<rparr>"
proof -
  have h: "assistantBufferRef (panel_init\<lparr>assistantBufferRef := ''Hel''\<rparr>) \<noteq> []"
    by simp
  have f: "flush playback_init = playback_init"
    by (simp add: flush_def playback_init_def)
  have m: "(control ''interrupted'' None)\<lparr>msg_type := ''interrupted''\<rparr> = control ''interrupted'' None"
    by (simp add: control_def)
  show ?thesis
    using interrupted_flushes_and_marks [where msg = "control ''interrupted'' None"
        and s = "panel_init\<lparr>assistantBufferRef := ''Hel''\<rparr>",
        THEN conjunct2, rule_format, OF h] f
    unfolding m by (simp add: panel_init_def)
qed

theorem interrupted_empty_counterexample:
  "assistantBufferRef panel_init = [] \<and>
   transcript (handleMessage (control ''interrupted'' None) panel_init) = []"
  by (simp add: handleMessage_def control_def panel_init_def flushAudio_def)

text \<open>
  Claim C9. With an empty assistant accumulator, \<open>turn_complete\<close> changes nothing and
  \<open>interrupted\<close> changes nothing but the Playback Scheduler, which it flushes: no
  transcript entry is emitted by either. In every state, empty accumulator or not,
  \<open>interrupted\<close> leaves the Playback Scheduler flushed.
\<close>

theorem empty_accumulator_emits_nothing:
  "handleMessage (msg\<lparr>msg_type := ''turn_complete''\<rparr>) (s\<lparr>assistantBufferRef := []\<rparr>) =
     s\<lparr>assistantBufferRef := []\<rparr> \<and>
   handleMessage (msg\<lparr>msg_type := ''interrupted''\<rparr>) (s\<lparr>assistantBufferRef := []\<rparr>) =
     s\<lparr>assistantBufferRef := [], audio := flush (audio s)\<rparr> \<and>
   transcript (handleMessage (msg\<lparr>msg_type := ''turn_complete''\<rparr>) (s\<lparr>assistantBufferRef := []\<rparr>)) =
     transcript s \<and>
   transcript (handleMessage (msg\<lparr>msg_type := ''interrupted''\<rparr>) (s\<lparr>assistantBufferRef := []\<rparr>)) =
     transcript s \<and>
   audio (handleMessage (msg\<lparr>msg_type := ''interrupted''\<rparr>) t) = flush (audio t)"
  by (simp add: handleMessage_turn_complete handleMessage_interrupted)

theorem empty_accumulator_emits_nothing_witness:
  "handleMessage (control ''turn_complete'' None) panel_init = panel_init \<and>
   handleMessage (control ''interrupted'' None)
     (panel_init\<lparr>audio := snd (getContext playback_init)\<rparr>) =
     panel_init\<lparr>audio :=
       \<lparr>contexts = [\<lparr>ctx_state = Closed, ctx_sampleRate = 24000, ctx_sources = []\<rparr>],
         ctxRef = None, nextTimeRef = Num 0, isPlayingRef = False\<rparr>\<rparr>"
proof -
  have m: "(control ''turn_complete'' None)\<lparr>msg_type := ''turn_complete''\<rparr> =
      control ''turn_complete'' None"
    "(control ''interrupted'' None)\<lparr>msg_type := ''interrupted''\<rparr> = control ''interrupted'' None"
    by (simp_all add: control_def)
  have e: "panel_init\<lparr>assistantBufferRef := []\<rparr> = panel_init"
    "panel_init\<lparr>audio := snd (getContext playback_init), assistantBufferRef := []\<rparr> =
      panel_init\<lparr>audio := snd (getContext playback_init)\<rparr>"
    by (simp_all add: panel_init_def)
  note a = empty_accumulator_emits_nothing [where msg = "control ''turn_complete'' None"
      and s = panel_init, THEN conjunct1]
  note b = empty_accumulator_emits_nothing [where msg = "control ''interrupted'' None"
      and s = "panel_init\<lparr>audio := snd (getContext playback_init)\<rparr>",
      THEN conjunct2, THEN conjunct1]
  have f: "flush (snd (getContext playback_init)) =
      \<lparr>contexts = [\<lparr>ctx_state = Closed, ctx_sampleRate = 24000, ctx_sources = []\<rparr>],
        ctxRef = None, nextTimeRef = Num 0, isPlayingRef = False\<rparr>"
    by (simp add: flush_def getContext_def create_context_def update_context_def
        playback_init_def new_AudioContext_def resume_def close_def
        AUDIO_RECEIVE_SAMPLE_RATE_def Let_def)
  show ?thesis
    using a b unfolding m e by (simp add: f panel_init_def)
qed

text \<open>
  Claim C10. A \<open>session_ready\<close> message whose \<open>agent\<close> field is absent or empty sets
  the agent name to \<open>"general"\<close> and emits exactly one system entry,
  \<open>"Connected to general agent."\<close>; nothing else changes.
\<close>

theorem session_ready_default_agent:
  "handleMessage (msg\<lparr>msg_type := ''session_ready'', msg_agent := None\<rparr>) s =
     s\<lparr>agentName := ''general'',
       transcript := transcript s @
         [\<lparr>entry_role = System, entry_text = ''Connected to general agent.''\<rparr>]\<rparr> \<and>
   handleMessage (msg\<lparr>msg_type := ''session_ready'', msg_agent := Some []\<rparr>) s =
     s\<lparr>agentName := ''general'',
       transcript := transcript s @
         [\<lparr>entry_role = System, entry_text = ''Connected to general agent.''\<rparr>]\<rparr>"
  by (simp add: handleMessage_def addEntry_def or_default_def)

theorem session_ready_default_agent_witness:
  "handleMessage \<lparr>msg_type = ''session_ready'', msg_text = None, msg_session_id = Some ''abc'',
      msg_agent = None, msg_message = None\<rparr> (panel_init\<lparr>agentName := ''tutor''\<rparr>) =
   panel_init\<lparr>transcript :=
     [\<lparr>entry_role = System, entry_text = ''Connected to general agent.''\<rparr>]\<rparr>"
proof -
  note th = session_ready_default_agent [where s = "panel_init\<lparr>agentName := ''tutor''\<rparr>"
      and msg = "\<lparr>msg_type = ''session_ready'', msg_text = None, msg_session_id = Some ''abc'',
        msg_agent = None, msg_message = None\<rparr>", THEN conjunct1]
  show ?thesis using th by (simp add: panel_init_def)
qed

section \<open>Teardown\<close>

lemma capture_stop_idem: "capture_stop (capture_stop c) = capture_stop c"
  by (simp add: capture_stop_def)

lemma camera_stop_idem: "camera_stop (camera_stop k) = camera_stop k"
  by (cases "videoRef k"; cases "intervalRef k")
     (simp_all add: camera_stop_def clearInterval_def)

lemma flush_idem: "flush (flush p) = flush p"
  by (cases "ctxRef p") (simp_all add: flush_def)

lemma ws_close_wsRef: "wsRef (ws_close i n) = wsRef n"
  by (simp add: ws_close_def)

lemma disconnect_idem: "disconnect (disconnect n) = disconnect n"
  by (simp add: disconnect_def)

lemma handleEndSession_idem: "handleEndSession (handleEndSession s) = handleEndSession s"
  by (simp add: handleEndSession_def stopMic_def stopCamera_def capture_stop_idem
      camera_stop_idem disconnect_idem)

lemma not_closed_ws_close:
  "i < length (sockets n) \<Longrightarrow>
     (ws_readyState (sockets (ws_close j n) ! i) \<noteq> CLOSED) = (ws_readyState (sockets n ! i) \<noteq> CLOSED)"
  by (cases "i = j") (auto simp: ws_close_def)

lemma length_sockets_ws_close: "length (sockets (ws_close j n)) = length (sockets n)"
  by (simp add: ws_close_def)

lemma pending_close_disconnect:
  "filter (\<lambda>i. ws_readyState (sockets (disconnect n) ! i) \<noteq> CLOSED) [0 ..< length (sockets (disconnect n))]
   = filter (\<lambda>i. ws_readyState (sockets n ! i) \<noteq> CLOSED) [0 ..< length (sockets n)]"
proof (cases "wsRef n")
  case None
  then show ?thesis by (simp add: disconnect_def)
next
  case (Some j)
  have "filter (\<lambda>i. ws_readyState (sockets (ws_close j n) ! i) \<noteq> CLOSED) [0 ..< length (sockets n)]
     = filter (\<lambda>i. ws_readyState (sockets n ! i) \<noteq> CLOSED) [0 ..< length (sockets n)]"
    by (rule filter_cong) (simp_all add: not_closed_ws_close)
  with Some show ?thesis
    by (simp add: disconnect_def length_sockets_ws_close)
qed

lemma pending_close_handleEndSession: "pending_close (handleEndSession s) = pending_close s"
  by (simp add: pending_close_def handleEndSession_def stopMic_def stopCamera_def
      pending_close_disconnect)

text \<open>
  Claim C6. Each teardown entry point is a total function with no error result, as the
  source guards every call by a null check. On a resource that was never acquired (the
  initial state) and on one already released (the state a teardown leaves) it changes
  nothing: \<open>stop\<close> of the Capture Pipeline, \<open>stop\<close> of the Frame Pacer, \<open>disconnect\<close>,
  \<open>flush\<close> and \<open>handleEndSession\<close>. \<open>handleEndSession\<close> itself appends nothing to the
  transcript and leaves the set of sockets whose close event is still to come as it was,
  so a second call in succession adds no "Session ended." entry. On a socket that the
  peer has already closed, \<open>disconnect\<close> only clears the reference.
\<close>

theorem teardown_idempotent:
  "capture_stop capture_init = capture_init \<and>
   capture_stop (capture_stop c) = capture_stop c \<and>
   camera_stop camera_init = camera_init \<and>
   camera_stop (camera_stop k) = camera_stop k \<and>
   disconnect connection_init = connection_init \<and>
   disconnect (disconnect n) = disconnect n \<and>
   flush playback_init = playback_init \<and>
   flush (flush p) = flush p \<and>
   handleEndSession panel_init = panel_init \<and>
   handleEndSession (handleEndSession s) = handleEndSession s \<and>
   transcript (handleEndSession s) = transcript s \<and>
   pending_close (handleEndSession s) = pending_close s \<and>
   disconnect ((ws_onclose i n)\<lparr>wsRef := Some i\<rparr>) =
     (ws_onclose i n)\<lparr>wsRef := None, status := Disconnected\<rparr>"
proof (intro conjI)
  show "disconnect ((ws_onclose i n)\<lparr>wsRef := Some i\<rparr>) =
     (ws_onclose i n)\<lparr>wsRef := None, status := Disconnected\<rparr>"
    by (simp add: disconnect_def ws_close_def ws_onclose_def)
  show "capture_stop capture_init = capture_init"
    by (simp add: capture_stop_def capture_init_def)
  show "capture_stop (capture_stop c) = capture_stop c"
    by (rule capture_stop_idem)
  show "camera_stop camera_init = camera_init"
    by (simp add: camera_stop_def camera_init_def)
  show "camera_stop (camera_stop k) = camera_stop k"
    by (rule camera_stop_idem)
  show "disconnect connection_init = connection_init"
    by (simp add: disconnect_def connection_init_def)
  show "disconnect (disconnect n) = disconnect n"
    by (rule disconnect_idem)
  show "flush playback_init = playback_init"
    by (simp add: flush_def playback_init_def)
  show "flush (flush p) = flush p"
    by (rule flush_idem)
  show "handleEndSession panel_init = panel_init"
    by (simp add: handleEndSession_def stopMic_def stopCamera_def panel_init_def
        capture_stop_def capture_init_def camera_stop_def camera_init_def
        disconnect_def connection_init_def)
  show "handleEndSession (handleEndSession s) = handleEndSession s"
    by (rule handleEndSession_idem)
  show "transcript (handleEndSession s) = transcript s"
    by (simp add: handleEndSession_def stopMic_def stopCamera_def)
  show "pending_close (handleEndSession s) = pending_close s"
    by (rule pending_close_handleEndSession)
qed

lemma session_example:
  "handleEndSession
     ((handleStart ''id'' ''tutor'' panel_init)
        \<lparr>conn := ws_onopen 0 ''tutor'' (conn (handleStart ''id'' ''tutor'' panel_init))\<rparr>) =
   panel_init\<lparr>sessionIdRef := ''id'', agentName := ''tutor'',
     conn := \<lparr>sockets = [\<lparr>ws_url = ''ws://localhost:8080/ws/session/id'',
                            ws_readyState = CLOSING, ws_sent = [Config ''tutor'']\<rparr>],
              wsRef = None, status = Disconnected\<rparr>\<rparr>"
  by (simp add: handleStart_def connect_def socket_open_def ws_onopen_def ws_send_def
      handleEndSession_def stopMic_def stopCamera_def disconnect_def ws_close_def
      capture_stop_def camera_stop_def panel_init_def connection_init_def capture_init_def
      camera_init_def BACKEND_WS_URL_def Let_def)

theorem teardown_idempotent_witness:
  "handleEndSession (handleEndSession
     ((handleStart ''id'' ''tutor'' panel_init)
        \<lparr>conn := ws_onopen 0 ''tutor'' (conn (handleStart ''id'' ''tutor'' panel_init))\<rparr>)) =
   panel_init\<lparr>sessionIdRef := ''id'', agentName := ''tutor'',
     conn := \<lparr>sockets = [\<lparr>ws_url = ''ws://localhost:8080/ws/session/id'',
                            ws_readyState = CLOSING, ws_sent = [Config ''tutor'']\<rparr>],
              wsRef = None, status = Disconnected\<rparr>\<rparr> \<and>
   transcript (socket_closed 0 (handleEndSession (handleEndSession
     ((handleStart ''id'' ''tutor'' panel_init)
        \<lparr>conn := ws_onopen 0 ''tutor'' (conn (handleStart ''id'' ''tutor'' panel_init))\<rparr>)))) =
     [\<lparr>entry_role = System, entry_text = ''Session ended.''\<rparr>]"
proof -
  note th = teardown_idempotent [where s = "(handleStart ''id'' ''tutor'' panel_init)
        \<lparr>conn := ws_onopen 0 ''tutor'' (conn (handleStart ''id'' ''tutor'' panel_init))\<rparr>",
      THEN conjunct2, THEN conjunct2, THEN conjunct2, THEN conjunct2, THEN conjunct2,
      THEN conjunct2, THEN conjunct2, THEN conjunct2, THEN conjunct2, THEN conjunct1]
  have twice: "handleEndSession (handleEndSession
     ((handleStart ''id'' ''tutor'' panel_init)
        \<lparr>conn := ws_onopen 0 ''tutor'' (conn (handleStart ''id'' ''tutor'' panel_init))\<rparr>)) =
   panel_init\<lparr>sessionIdRef := ''id'', agentName := ''tutor'',
     conn := \<lparr>sockets = [\<lparr>ws_url = ''ws://localhost:8080/ws/session/id'',
                            ws_readyState = CLOSING, ws_sent = [Config ''tutor'']\<rparr>],
              wsRef = None, status = Disconnected\<rparr>\<rparr>"
    using th unfolding session_example by simp
  show ?thesis
    unfolding twice
    by (simp add: socket_closed_def ws_onclose_def handleDisconnect_def addEntry_def
        panel_init_def)
qed

section \<open>Properties of the Frame Pacer\<close>






















lemma split_comma_1_none: "split_comma_1 ''data:,'' = Some []"
  by (simp add: split_comma_1_def)




lemma camera_stop_start_example:
  "live_intervals (fst (camera_start (Some camera_stream) True 10 (camera_stop camera_started))) = 1"
  by (simp add: camera_start_def camera_stop_def clearInterval_def camera_started_def
      camera_stream_def getVideoTracks_def install_interval_def setInterval_def
      live_intervals_def Let_def)

section \<open>Properties of the Connection Manager\<close>

lemma send_closed:
  "\<not> socket_open n \<Longrightarrow> sendAudio buffer n = n \<and> sendImage base64Jpeg n = n \<and> sendText t n = n"
  by (cases "wsRef n") (simp_all add: sendAudio_def sendImage_def sendText_def)

text \<open>
  Claim C8. While the socket that \<open>wsRef\<close> names is not open (or there is none),
  \<open>sendAudio\<close>, \<open>sendImage\<close> and \<open>sendText\<close> return the state they were given: no
  socket gets anything to transmit, no status changes, and no branch raises.
\<close>

theorem send_when_not_open:
  assumes "\<not> socket_open n"
  shows "sendAudio buffer n = n \<and> sendImage base64Jpeg n = n \<and> sendText t n = n"
  using assms by (rule send_closed)

theorem send_when_not_open_witness:
  "\<not> socket_open (connect ''id'' ''tutor'' connection_init) \<and>
   sendAudio [1, 2] (connect ''id'' ''tutor'' connection_init) =
     connect ''id'' ''tutor'' connection_init \<and>
   sendImage (Some ''AAAA'') (connect ''id'' ''tutor'' connection_init) =
     connect ''id'' ''tutor'' connection_init \<and>
   sendText ''hello'' (connect ''id'' ''tutor'' connection_init) =
     connect ''id'' ''tutor'' connection_init \<and>
   ws_sent (sockets (sendText ''hello'' (connect ''id'' ''tutor'' connection_init)) ! 0) = []"
proof -
  have h: "\<not> socket_open (connect ''id'' ''tutor'' connection_init)"
    by (simp add: connect_def socket_open_def connection_init_def Let_def)
  have e: "ws_sent (sockets (connect ''id'' ''tutor'' connection_init) ! 0) = []"
    by (simp add: connect_def socket_open_def connection_init_def Let_def)
  show ?thesis
    using h e send_when_not_open [OF h, where buffer = "[1, 2]" and ?base64Jpeg.0 = "Some ''AAAA''"
        and t = "''hello''"]
    by simp
qed

end

